theory Spec2Isabelle
  imports Main "HOL-Library.AList" "HOL-Library.Product_Lexorder" "HOL-Library.Multiset"
begin

section \<open>Station uptime: a model of station\_uptime.py\<close>

text \<open>
  The program reads a text document with a station section and a report section,
  merges the up-intervals of every station and prints one percentage per station.

  Modelling decisions.
  \<^item> Python integers are unbounded: they are \<open>int\<close>.
  \<^item> A Python string is a \<open>string\<close>; a character stands for the code point of the
    same number, so the model covers documents whose code points are below 256.
  \<^item> A dict is an association list with distinct keys in insertion order
    (\<open>AList.update\<close> replaces in place or appends, as a dict does).
  \<^item> A set of integers is a list without repetition; the order in which Python
    iterates a set is not specified, and the results below are shown not to depend on it.
  \<^item> An exception is a value of type \<open>error\<close>, the left summand of a result.
\<close>

subsection \<open>String operations used by the parser\<close>

text \<open>\<open>str.isspace\<close> on one code point below 256.\<close>

definition isspace :: "char \<Rightarrow> bool" where
  "isspace c = (c \<in> set [CHR 0x09, CHR 0x0A, CHR 0x0B, CHR 0x0C, CHR 0x0D,
     CHR 0x1C, CHR 0x1D, CHR 0x1E, CHR 0x1F, CHR 0x20, CHR 0x85, CHR 0xA0])"

text \<open>\<open>str.strip()\<close>: leading and trailing whitespace removed.\<close>

definition str_strip :: "string \<Rightarrow> string" where
  "str_strip s = rev (dropWhile isspace (rev (dropWhile isspace s)))"

text \<open>\<open>str.split()\<close> with no argument: the maximal runs of non-whitespace.
  The first argument is the token being read.\<close>

fun split_run :: "string \<Rightarrow> string \<Rightarrow> string list" where
  "split_run cur [] = (if cur = [] then [] else [cur])"
| "split_run cur (c # cs) =
     (if isspace c then (if cur = [] then split_run [] cs else cur # split_run [] cs)
      else split_run (cur @ [c]) cs)"

definition str_split :: "string \<Rightarrow> string list" where
  "str_split s = split_run [] s"

text \<open>\<open>str.startswith\<close>.\<close>

definition startswith :: "string \<Rightarrow> string \<Rightarrow> bool" where
  "startswith s p = (take (length p) s = p)"

text \<open>\<open>str.lower()\<close> on code points below 256: the ASCII capitals and the Latin-1
  capitals (all of 0xC0..0xDE but the multiplication sign) move up by 32.\<close>

definition lower_char :: "char \<Rightarrow> char" where
  "lower_char c =
     (let n = (of_char c :: nat) in
      if (65 \<le> n \<and> n \<le> 90) \<or> (192 \<le> n \<and> n \<le> 222 \<and> n \<noteq> 215)
      then char_of (n + 32) else c)"

definition str_lower :: "string \<Rightarrow> string" where
  "str_lower s = map lower_char s"

subsection \<open>Integers read and written in base 10\<close>

definition digit_val :: "char \<Rightarrow> nat option" where
  "digit_val c = map_of [(CHR ''0'', 0), (CHR ''1'', 1), (CHR ''2'', 2), (CHR ''3'', 3),
     (CHR ''4'', 4), (CHR ''5'', 5), (CHR ''6'', 6), (CHR ''7'', 7), (CHR ''8'', 8),
     (CHR ''9'', 9)] c"

text \<open>The digits after the first one: a single underscore may stand between two digits.\<close>

fun int_digits :: "nat \<Rightarrow> string \<Rightarrow> nat option" where
  "int_digits acc [] = Some acc"
| "int_digits acc [c] =
     (case digit_val c of None \<Rightarrow> None | Some v \<Rightarrow> Some (acc * 10 + v))"
| "int_digits acc (c # d # ds) =
     (if c = CHR ''_''
      then (case digit_val d of None \<Rightarrow> None | Some v \<Rightarrow> int_digits (acc * 10 + v) ds)
      else (case digit_val c of None \<Rightarrow> None | Some v \<Rightarrow> int_digits (acc * 10 + v) (d # ds)))"

definition int_unsigned :: "string \<Rightarrow> nat option" where
  "int_unsigned s =
     (case s of [] \<Rightarrow> None
      | c # cs \<Rightarrow> (case digit_val c of None \<Rightarrow> None | Some v \<Rightarrow> int_digits v cs))"

text \<open>The whitespace that \<open>int(s)\<close> drops around the number: the six of ASCII, and
  the two other spaces below 256. Unlike \<open>str.strip\<close>, it keeps the separators
  0x1C to 0x1F, and such a string is not an integer.\<close>

definition int_space :: "char \<Rightarrow> bool" where
  "int_space c = (c \<in> set [CHR 0x09, CHR 0x0A, CHR 0x0B, CHR 0x0C, CHR 0x0D, CHR 0x20,
     CHR 0x85, CHR 0xA0])"

text \<open>\<open>int(s)\<close>: surrounding whitespace is dropped, one sign is allowed, then digits.
  \<open>None\<close> is the \<open>ValueError\<close>. The limit that recent interpreters put on the number
  of digits of one integer is a setting of the interpreter and is left out.\<close>

definition py_int :: "string \<Rightarrow> int option" where
  "py_int s0 =
     (case rev (dropWhile int_space (rev (dropWhile int_space s0))) of [] \<Rightarrow> None
      | c # cs \<Rightarrow>
          if c = CHR ''-'' then map_option (\<lambda>n. - int n) (int_unsigned cs)
          else if c = CHR ''+'' then map_option int (int_unsigned cs)
          else map_option int (int_unsigned (c # cs)))"

text \<open>\<open>str(n)\<close> for an integer, as the f-strings of the program render it.\<close>

fun str_nat :: "nat \<Rightarrow> string" where
  "str_nat n =
     (if n < 10 then [''0123456789'' ! n]
      else str_nat (n div 10) @ [''0123456789'' ! (n mod 10)])"

definition str_int :: "int \<Rightarrow> string" where
  "str_int i = (if i < 0 then CHR ''-'' # str_nat (nat (- i)) else str_nat (nat i))"

subsection \<open>Errors\<close>

text \<open>The \<open>ValueError\<close>s the parser raises, each with what its message shows, the
  \<open>KeyError\<close> of a dict subscript, and the failure to open or read the file.\<close>

datatype error =
    InvalidStationId string
  | InvalidChargerId string
  | MultipleStations int
  | InvalidFieldCount string
  | InvalidNumericField string
  | InvalidUpFlag string
  | KeyError int
  | ReadError string

fun message :: "error \<Rightarrow> string" where
  "message (InvalidStationId ln) = ''Invalid station line (station id): '' @ ln"
| "message (InvalidChargerId ln) = ''Invalid charger id on station line: '' @ ln"
| "message (MultipleStations cid) =
     ''Charger '' @ str_int cid @ '' appears under multiple stations.''"
| "message (InvalidFieldCount ln) = ''Invalid report line (need 4 fields): '' @ ln"
| "message (InvalidNumericField ln) = ''Invalid numeric field in report line: '' @ ln"
| "message (InvalidUpFlag ln) = ''Invalid up flag (must be true/false): '' @ ln"
| "message (KeyError k) = str_int k"
| "message (ReadError m) = m"

subsection \<open>The parser\<close>

type_synonym report = "int \<times> int \<times> bool"

record pstate =
  state :: nat
  station_to_chargers :: "(int \<times> int list) list"
  charger_to_station :: "(int \<times> int) list"
  reports :: "(int \<times> report list) list"

definition init_pstate :: pstate where
  "init_pstate =
     \<lparr>state = 0, station_to_chargers = [], charger_to_station = [], reports = []\<rparr>"

text \<open>\<open>set.add\<close> on the list that stands for a set.\<close>

definition set_add :: "int \<Rightarrow> int list \<Rightarrow> int list" where
  "set_add x xs = (if x \<in> set xs then xs else xs @ [x])"

text \<open>The first loop of a station line: every token after the first is read as an
  integer, before any charger is bound.\<close>

fun charger_ids_of :: "string \<Rightarrow> string list \<Rightarrow> error + int list" where
  "charger_ids_of ln [] = Inr []"
| "charger_ids_of ln (tok # toks) =
     (case py_int tok of None \<Rightarrow> Inl (InvalidChargerId ln)
      | Some cid \<Rightarrow>
          (case charger_ids_of ln toks of Inl e \<Rightarrow> Inl e | Inr cids \<Rightarrow> Inr (cid # cids)))"

text \<open>The second loop of a station line: the chargers are bound one by one.\<close>

fun bind_chargers :: "int \<Rightarrow> int list \<Rightarrow> pstate \<Rightarrow> error + pstate" where
  "bind_chargers station_id [] st = Inr st"
| "bind_chargers station_id (cid # cids) st =
     (if (case map_of (charger_to_station st) cid of
            None \<Rightarrow> False | Some other \<Rightarrow> other \<noteq> station_id)
      then Inl (MultipleStations cid)
      else (case map_of (station_to_chargers st) station_id of
              None \<Rightarrow> Inl (KeyError station_id)
            | Some cs \<Rightarrow>
                bind_chargers station_id cids
                  (st\<lparr>charger_to_station :=
                        AList.update cid station_id (charger_to_station st),
                      station_to_chargers :=
                        AList.update station_id (set_add cid cs) (station_to_chargers st)\<rparr>)))"

definition station_line :: "pstate \<Rightarrow> string \<Rightarrow> error + pstate" where
  "station_line st ln =
     (let parts = str_split ln in
      case parts of [] \<Rightarrow> Inr st
      | tok # toks \<Rightarrow>
          (case py_int tok of None \<Rightarrow> Inl (InvalidStationId ln)
           | Some station_id \<Rightarrow>
               (case charger_ids_of ln toks of Inl e \<Rightarrow> Inl e
                | Inr charger_ids \<Rightarrow>
                    bind_chargers station_id charger_ids
                      (if station_id \<notin> fst ` set (station_to_chargers st)
                       then st\<lparr>station_to_chargers :=
                                 AList.update station_id [] (station_to_chargers st)\<rparr>
                       else st))))"

definition dict_get :: "('k \<times> 'v list) list \<Rightarrow> 'k \<Rightarrow> 'v list" where
  "dict_get d k = (case map_of d k of None \<Rightarrow> [] | Some v \<Rightarrow> v)"

definition report_line :: "pstate \<Rightarrow> string \<Rightarrow> error + pstate" where
  "report_line st ln =
     (let parts = str_split ln in
      case parts of [] \<Rightarrow> Inr st
      | tok # toks \<Rightarrow>
          if startswith tok ''['' then Inr st
          else (case parts of
              [p0, p1, p2, p3] \<Rightarrow>
                (case (py_int p0, py_int p1, py_int p2) of
                   (Some cid, Some start, Some end') \<Rightarrow>
                     (let up_str = str_lower p3 in
                      if up_str \<noteq> ''true'' \<and> up_str \<noteq> ''false'' then Inl (InvalidUpFlag ln)
                      else Inr (st\<lparr>reports :=
                             AList.update cid (dict_get (reports st) cid @ [(start, end', up_str = ''true'')])
                               (reports st)\<rparr>))
                 | _ \<Rightarrow> Inl (InvalidNumericField ln))
            | _ \<Rightarrow> Inl (InvalidFieldCount ln)))"

text \<open>One pass of the \<open>while\<close> loop, on a line that is already stripped.\<close>

definition parse_line :: "pstate \<Rightarrow> string \<Rightarrow> error + pstate" where
  "parse_line st ln =
     (if ln = [] then Inr st
      else if startswith ln ''#'' then Inr st
      else if ln = ''[Stations]'' then Inr (st\<lparr>state := 1\<rparr>)
      else if ln = ''[Charger Availability Reports]'' then Inr (st\<lparr>state := 2\<rparr>)
      else if state st = 1 then station_line st ln
      else if state st = 2 then report_line st ln
      else Inr st)"

fun parse_lines :: "pstate \<Rightarrow> string list \<Rightarrow> error + pstate" where
  "parse_lines st [] = Inr st"
| "parse_lines st (ln # lns) =
     (case parse_line st ln of Inl e \<Rightarrow> Inl e | Inr st' \<Rightarrow> parse_lines st' lns)"

text \<open>Iterating a text file opened with universal newlines: a line ends at
  \<open>\n\<close>, \<open>\r\<close> or \<open>\r\n\<close>, and keeps a \<open>\n\<close> as its terminator.\<close>

fun readlines :: "string \<Rightarrow> string list" where
  "readlines [] = []"
| "readlines [c] = [[if c = CHR 0x0D then CHR 0x0A else c]]"
| "readlines (c # d # cs) =
     (if c = CHR 0x0A then [c] # readlines (d # cs)
      else if c = CHR 0x0D then
        (if d = CHR 0x0A then [CHR 0x0A] # readlines cs else [CHR 0x0A] # readlines (d # cs))
      else (case readlines (d # cs) of [] \<Rightarrow> [[c]] | l # ls \<Rightarrow> (c # l) # ls))"

text \<open>The body of \<open>parse_input\<close> once the lines are read.\<close>

definition parse_document ::
  "string list \<Rightarrow> error + ((int \<times> int list) list \<times> (int \<times> int) list \<times> (int \<times> report list) list)" where
  "parse_document raw =
     (case parse_lines init_pstate (map str_strip raw) of
        Inl e \<Rightarrow> Inl e
      | Inr st \<Rightarrow> Inr (station_to_chargers st, charger_to_station st, reports st))"

text \<open>The file system is a function from a path to the text of the file, or to the
  message of the exception that opening or decoding it raises.\<close>

definition parse_input ::
  "(string \<Rightarrow> string + string) \<Rightarrow> string \<Rightarrow>
   error + ((int \<times> int list) list \<times> (int \<times> int) list \<times> (int \<times> report list) list)" where
  "parse_input fs path =
     (case fs path of Inl m \<Rightarrow> Inl (ReadError m)
      | Inr content \<Rightarrow> parse_document (readlines content))"

subsection \<open>The interval merger\<close>

text \<open>The sweep over the sorted intervals; \<open>(cs, ce)\<close> is the open interval and
  \<open>merged\<close> the intervals already closed.\<close>

fun sweep :: "int \<Rightarrow> int \<Rightarrow> (int \<times> int) list \<Rightarrow> (int \<times> int) list \<Rightarrow> (int \<times> int) list" where
  "sweep cs ce merged [] = merged @ [(cs, ce)]"
| "sweep cs ce merged ((s, e) # rest) =
     (if s \<le> ce then (if e > ce then sweep cs e merged rest else sweep cs ce merged rest)
      else sweep s e (merged @ [(cs, ce)]) rest)"

text \<open>\<open>norm.sort()\<close> sorts the pairs lexicographically, which is the order of pairs
  in this theory.\<close>

definition merge_intervals :: "(int \<times> int) list \<Rightarrow> (int \<times> int) list" where
  "merge_intervals intervals =
     (if intervals = [] then []
      else (let norm = filter (\<lambda>(s, e). e > s) intervals in
            if norm = [] then []
            else (case sort norm of [] \<Rightarrow> [] | (cs, ce) # rest \<Rightarrow> sweep cs ce [] rest)))"

subsection \<open>The uptime calculator\<close>

definition clipped_total :: "(int \<times> int) list \<Rightarrow> int \<Rightarrow> int \<Rightarrow> int" where
  "clipped_total intervals clip_start clip_end =
     fold (\<lambda>(s, e) total.
             (let a = max s clip_start; b = min e clip_end
              in if b > a then total + (b - a) else total))
          intervals 0"

text \<open>The two nested loops that collect the starts, the ends and the up-intervals of
  one station.\<close>

definition collect_report ::
  "report \<Rightarrow> int list \<times> int list \<times> (int \<times> int) list \<Rightarrow> int list \<times> int list \<times> (int \<times> int) list" where
  "collect_report r acc =
     (case (r, acc) of ((s, e, up), (all_starts, all_ends, up_intervals)) \<Rightarrow>
        (all_starts @ [s], all_ends @ [e],
         if up then up_intervals @ [(s, e)] else up_intervals))"

definition collect ::
  "int list \<Rightarrow> (int \<times> report list) list \<Rightarrow> int list \<times> int list \<times> (int \<times> int) list" where
  "collect chargers reps =
     fold (\<lambda>cid acc. fold collect_report (dict_get reps cid) acc) chargers ([], [], [])"

text \<open>The body of the loop over the stations: the percentage of one station.\<close>

definition station_uptime :: "int list \<Rightarrow> (int \<times> report list) list \<Rightarrow> int" where
  "station_uptime chargers reps =
     (case collect chargers reps of (all_starts, all_ends, up_intervals) \<Rightarrow>
        if all_starts = [] \<or> all_ends = [] then 0
        else (let window_start = Min (set all_starts);
                  window_end = Max (set all_ends)
              in if window_end \<le> window_start then 0
                 else (let up_merged = merge_intervals up_intervals;
                           up_time = clipped_total up_merged window_start window_end;
                           total = window_end - window_start;
                           pct = (up_time * 100) div total;
                           pct1 = (if pct < 0 then 0 else pct);
                           pct2 = (if pct1 > 100 then 100 else pct1)
                       in pct2)))"

definition compute_station_uptime ::
  "(int \<times> int list) list \<Rightarrow> (int \<times> report list) list \<Rightarrow> (int \<times> int) list" where
  "compute_station_uptime s2c reps =
     fold (\<lambda>station_id results.
             AList.update station_id (station_uptime (dict_get s2c station_id) reps) results)
          (sort (map fst s2c)) []"

subsection \<open>The command line\<close>

text \<open>The loop that prints the results. \<open>out\<close> is what is printed so far; a failing
  subscript returns it with the error.\<close>

fun print_results :: "(int \<times> int) list \<Rightarrow> int list \<Rightarrow> string list \<Rightarrow> (string list \<times> error) + string list" where
  "print_results results [] out = Inr out"
| "print_results results (station_id # ids) out =
     (case map_of results station_id of
        None \<Rightarrow> Inl (out, KeyError station_id)
      | Some pct \<Rightarrow>
          print_results results ids (out @ [str_int station_id @ '' '' @ str_int pct]))"

text \<open>\<open>main\<close> returns the exit status, the lines on standard output and the lines on
  the error channel.\<close>

definition main :: "(string \<Rightarrow> string + string) \<Rightarrow> string list \<Rightarrow> int \<times> string list \<times> string list" where
  "main fs argv =
     (if length argv \<noteq> 2 then (2, [], [''Usage: station_uptime.py <input_file_path>''])
      else (case parse_input fs (argv ! 1) of
              Inl e \<Rightarrow> (1, [''error''], [''Error: '' @ message e])
            | Inr (s2c, c2s, reps) \<Rightarrow>
                (let results = compute_station_uptime s2c reps in
                 case print_results results (sort (map fst results)) [] of
                   Inl (out, e) \<Rightarrow> (1, out @ [''error''], [''Error: '' @ message e])
                 | Inr out \<Rightarrow> (0, out, []))))"

subsection \<open>The example document\<close>

text \<open>One station with two chargers, one report for each charger.\<close>

definition example_document :: string where
  "example_document =
     ''[Stations]'' @ [CHR 0x0A] @
     ''1 10 11'' @ [CHR 0x0A] @
     [CHR 0x0A] @
     ''[Charger Availability Reports]'' @ [CHR 0x0A] @
     ''10 0 100 true'' @ [CHR 0x0A] @
     ''11 50 150 false'' @ [CHR 0x0A]"

subsection \<open>Vocabulary of the properties\<close>

text \<open>The points of time an interval covers: the interval is half-open, and covers
  nothing when its end is not after its start.\<close>

definition points :: "int \<times> int \<Rightarrow> int set" where
  "points p = {fst p ..< snd p}"

text \<open>The points of time a list of intervals covers.\<close>

definition covered :: "(int \<times> int) list \<Rightarrow> int set" where
  "covered xs = (\<Union>p \<in> set xs. points p)"

text \<open>A list of intervals is separated when every interval is non-empty and ends
  before the next one starts. Such a list is sorted by start and its intervals are
  pairwise disjoint and not adjacent.\<close>

definition separated :: "(int \<times> int) list \<Rightarrow> bool" where
  "separated xs = (sorted_wrt (\<lambda>a b. snd a < fst b) xs \<and> list_all (\<lambda>p. fst p < snd p) xs)"

text \<open>All the reports of a station, charger by charger, whatever their flag.\<close>

definition station_reports :: "int list \<Rightarrow> (int \<times> report list) list \<Rightarrow> report list" where
  "station_reports chargers reps = concat (map (dict_get reps) chargers)"

text \<open>The intervals of the reports whose flag is up.\<close>

definition up_intervals_of :: "report list \<Rightarrow> (int \<times> int) list" where
  "up_intervals_of rs = map (\<lambda>(s, e, up). (s, e)) (filter (\<lambda>(s, e, up). up) rs)"

text \<open>The length of an interval once clipped to a window.\<close>

definition clip :: "int \<Rightarrow> int \<Rightarrow> int \<times> int \<Rightarrow> int" where
  "clip a b p = (if min (snd p) b > max (fst p) a then min (snd p) b - max (fst p) a else 0)"

text \<open>A line that the station branch reads as the station \<open>station_id\<close> with the
  chargers \<open>charger_ids\<close>: it is not blank, not a comment and not a section marker, and all
  its tokens are integers.\<close>

definition is_station_line :: "string \<Rightarrow> int \<Rightarrow> int list \<Rightarrow> bool" where
  "is_station_line ln station_id charger_ids =
     (ln \<noteq> [] \<and> \<not> startswith ln ''#'' \<and> ln \<noteq> ''[Stations]''
      \<and> ln \<noteq> ''[Charger Availability Reports]''
      \<and> (case str_split ln of [] \<Rightarrow> False
         | tok # toks \<Rightarrow>
             py_int tok = Some station_id \<and> charger_ids_of ln toks = Inr charger_ids))"

text \<open>The state after the guard of a station line that gives a new station the empty
  set.\<close>

definition ensure_station :: "int \<Rightarrow> pstate \<Rightarrow> pstate" where
  "ensure_station sid st =
     (if sid \<notin> fst ` set (station_to_chargers st)
      then st\<lparr>station_to_chargers := AList.update sid [] (station_to_chargers st)\<rparr>
      else st)"

text \<open>A document whose report line has three fields.\<close>

definition short_report_document :: string where
  "short_report_document =
     ''[Charger Availability Reports]'' @ [CHR 0x0A] @ ''10 0 100'' @ [CHR 0x0A]"

text \<open>A document with the station marker inside the report section, before a
  well-formed report line; and the same document with another bracketed line in its
  place.\<close>

definition marker_report_document :: string where
  "marker_report_document =
     ''[Charger Availability Reports]'' @ [CHR 0x0A] @ ''[Stations]'' @ [CHR 0x0A] @
     ''10 0 100 true'' @ [CHR 0x0A]"

definition stray_report_document :: string where
  "stray_report_document =
     ''[Charger Availability Reports]'' @ [CHR 0x0A] @ ''[stray]'' @ [CHR 0x0A] @
     ''10 0 100 true'' @ [CHR 0x0A]"

section \<open>Properties\<close>

subsection \<open>Lemmas on the merger and the calculator\<close>

lemma covered_simps:
  "covered [] = {}" "covered (p # xs) = points p \<union> covered xs"
  "covered (xs @ ys) = covered xs \<union> covered ys"
  by (auto simp: covered_def)

lemma sweep_append: "sweep cs ce merged rest = merged @ sweep cs ce [] rest"
proof (induction rest arbitrary: cs ce merged)
  case Nil
  show ?case by simp
next
  case (Cons p rest)
  obtain s e where p: "p = (s, e)" by (cases p)
  show ?case
  proof (cases "s \<le> ce")
    case True
    then show ?thesis using Cons.IH [of cs e merged] Cons.IH [of cs ce merged] by (simp add: p)
  next
    case False
    then show ?thesis
      using Cons.IH [of s e "merged @ [(cs, ce)]"] Cons.IH [of s e "[(cs, ce)]"]
      by (simp add: p)
  qed
qed

lemma sweep_far: "ce < s \<Longrightarrow> sweep cs ce [] ((s, e) # rest) = (cs, ce) # sweep s e [] rest"
  using sweep_append [of s e "[(cs, ce)]" rest] by simp

lemma sweep_extend: "s \<le> ce \<Longrightarrow> ce < e \<Longrightarrow> sweep cs ce merged ((s, e) # rest) = sweep cs e merged rest"
  by simp

lemma sweep_inside: "s \<le> ce \<Longrightarrow> e \<le> ce \<Longrightarrow> sweep cs ce merged ((s, e) # rest) = sweep cs ce merged rest"
  by simp

declare sweep.simps(2) [simp del]

lemma sweep_props:
  "cs < ce \<Longrightarrow> sorted (map fst rest) \<Longrightarrow> \<forall>p \<in> set rest. cs \<le> fst p \<and> fst p < snd p \<Longrightarrow>
   separated (sweep cs ce [] rest)
   \<and> (\<forall>p \<in> set (sweep cs ce [] rest). cs \<le> fst p)
   \<and> covered (sweep cs ce [] rest) = points (cs, ce) \<union> covered rest"
proof (induction rest arbitrary: cs ce)
  case Nil
  then show ?case by (simp add: separated_def covered_def)
next
  case (Cons p rest)
  obtain s e where p: "p = (s, e)" by (cases p)
  from Cons.prems have se: "cs \<le> s" "s < e" and srt: "sorted (map fst rest)"
    and ge: "\<forall>q \<in> set rest. s \<le> fst q \<and> fst q < snd q"
    by (auto simp: p)
  show ?case
  proof (cases "s \<le> ce")
    case True
    show ?thesis
    proof (cases "e > ce")
      case True
      have pre: "\<forall>q \<in> set rest. cs \<le> fst q \<and> fst q < snd q" using ge se by fastforce
      have "cs < e" using se by simp
      from Cons.IH [OF this srt pre]
      have ih: "separated (sweep cs e [] rest)" "\<forall>p \<in> set (sweep cs e [] rest). cs \<le> fst p"
        "covered (sweep cs e [] rest) = points (cs, e) \<union> covered rest" by auto
      have "points (cs, e) = points (cs, ce) \<union> points (s, e)"
        using se \<open>s \<le> ce\<close> True by (auto simp: points_def)
      then show ?thesis using ih by (simp add: p sweep_extend [OF \<open>s \<le> ce\<close> True] covered_simps Un_assoc)
    next
      case False
      have pre: "\<forall>q \<in> set rest. cs \<le> fst q \<and> fst q < snd q" using ge se by fastforce
      from Cons.IH [OF Cons.prems(1) srt pre]
      have ih: "separated (sweep cs ce [] rest)" "\<forall>p \<in> set (sweep cs ce [] rest). cs \<le> fst p"
        "covered (sweep cs ce [] rest) = points (cs, ce) \<union> covered rest" by auto
      have "points (s, e) \<subseteq> points (cs, ce)"
        using se False by (auto simp: points_def)
      have "e \<le> ce" using False by simp
      note sw = sweep_inside [OF \<open>s \<le> ce\<close> this]
      from \<open>points (s, e) \<subseteq> points (cs, ce)\<close> show ?thesis using ih by (auto simp: p sw covered_simps)
    qed
  next
    case False
    then have far: "ce < s" by simp
    from Cons.IH [OF se(2) srt ge]
    have ih: "separated (sweep s e [] rest)" "\<forall>p \<in> set (sweep s e [] rest). s \<le> fst p"
      "covered (sweep s e [] rest) = points (s, e) \<union> covered rest" by auto
    have "separated ((cs, ce) # sweep s e [] rest)"
      using ih far Cons.prems(1) by (fastforce simp: separated_def)
    moreover have "\<forall>q \<in> set ((cs, ce) # sweep s e [] rest). cs \<le> fst q"
      using ih(2) se by fastforce
    ultimately show ?thesis using ih(3) by (simp add: p sweep_far [OF far] covered_simps)
  qed
qed

lemma sorted_fst: "sorted (xs :: (int \<times> int) list) \<Longrightarrow> sorted (map fst xs)"
  by (induction xs) (auto simp: less_eq_prod_def)

lemma sweep_separated_id:
  "separated ((cs, ce) # rest) \<Longrightarrow> sweep cs ce [] rest = (cs, ce) # rest"
proof (induction rest arbitrary: cs ce)
  case Nil
  show ?case by simp
next
  case (Cons p rest)
  obtain s e where p: "p = (s, e)" by (cases p)
  from Cons.prems have far: "ce < s" and sep: "separated ((s, e) # rest)"
    by (auto simp: p separated_def)
  show ?case using Cons.IH [OF sep] by (simp add: p sweep_far [OF far])
qed

lemma separated_sorted: "separated xs \<Longrightarrow> sorted xs"
proof (induction xs)
  case Nil
  show ?case by simp
next
  case (Cons p xs)
  from Cons.prems have sep: "separated xs" and lt: "fst p < snd p"
    and far: "\<forall>q \<in> set xs. snd p < fst q"
    by (auto simp: separated_def)
  have "\<forall>q \<in> set xs. p \<le> q"
  proof
    fix q assume "q \<in> set xs"
    then have "fst p < fst q" using far lt by fastforce
    then show "p \<le> q" by (simp add: less_eq_prod_def)
  qed
  then show ?case using Cons.IH [OF sep] by simp
qed

lemma separated_filter: "separated xs \<Longrightarrow> filter (\<lambda>(s, e). e > s) xs = xs"
  by (induction xs) (auto simp: separated_def)

lemma merge_separated_id: "separated xs \<Longrightarrow> merge_intervals xs = xs"
proof (cases xs)
  case Nil
  then show ?thesis by (simp add: merge_intervals_def)
next
  case (Cons p rest)
  assume sep: "separated xs"
  obtain cs ce where p: "p = (cs, ce)" by (cases p)
  have "sort xs = xs" using separated_sorted [OF sep] by (rule sorted_sort_id)
  moreover have "filter (\<lambda>(s, e). e > s) xs = xs" using sep by (rule separated_filter)
  moreover have "sweep cs ce [] rest = xs"
    using sep sweep_separated_id [of cs ce rest] by (simp add: Cons p)
  ultimately show ?thesis
    by (simp add: merge_intervals_def) (simp add: Cons p)
qed

lemma merge_props:
  "separated (merge_intervals xs)
   \<and> covered (merge_intervals xs) = covered (filter (\<lambda>(s, e). s < e) xs)"
proof (cases "filter (\<lambda>(s, e). e > s) xs = []")
  case True
  then show ?thesis by (simp add: merge_intervals_def separated_def covered_def)
next
  case False
  define norm where "norm = filter (\<lambda>(s, e). e > s) xs"
  have "length (sort norm) = length norm" by simp
  then have ne: "sort norm \<noteq> []" using False unfolding norm_def by fastforce
  then obtain cs ce rest where srt: "sort norm = (cs, ce) # rest"
    by (cases "sort norm") auto
  have all: "\<forall>p \<in> set (sort norm). fst p < snd p" by (auto simp: norm_def)
  have s1: "sorted (map fst (sort norm))" by (rule sorted_fst) simp
  have a: "cs < ce" using all srt by auto
  have b: "sorted (map fst rest)" using s1 srt by simp
  have c: "\<forall>p \<in> set rest. cs \<le> fst p \<and> fst p < snd p" using s1 all srt by auto
  have m: "merge_intervals xs = sweep cs ce [] rest"
    using False srt by (auto simp: merge_intervals_def norm_def)
  have "covered (sort norm) = covered norm" by (simp add: covered_def)
  then have "covered norm = points (cs, ce) \<union> covered rest" by (simp add: srt covered_simps)
  then show ?thesis using sweep_props [OF a b c] m by (simp add: norm_def)
qed

lemma merge_perm: "mset ys = mset xs \<Longrightarrow> merge_intervals ys = merge_intervals xs"
proof -
  assume eq: "mset ys = mset xs"
  have e: "(ys = []) = (xs = [])" using eq by (metis mset_zero_iff)
  have f: "mset (filter (\<lambda>(s, e). e > s) ys) = mset (filter (\<lambda>(s, e). e > s) xs)"
    using eq by simp
  then have g: "sort (filter (\<lambda>(s, e). e > s) ys) = sort (filter (\<lambda>(s, e). e > s) xs)"
    by (intro properties_for_sort) simp_all
  have h: "(filter (\<lambda>(s, e). e > s) ys = []) = (filter (\<lambda>(s, e). e > s) xs = [])"
    using f by (metis mset_zero_iff)
  show ?thesis using e g h by (simp add: merge_intervals_def)
qed

lemma fold_collect_report:
  "fold collect_report rs (a, b, c) =
     (a @ map fst rs, b @ map (\<lambda>r. fst (snd r)) rs, c @ up_intervals_of rs)"
  by (induction rs arbitrary: a b c) (auto simp: collect_report_def up_intervals_of_def)

lemma fold_collect:
  "fold (\<lambda>cid acc. fold collect_report (dict_get reps cid) acc) chargers (a, b, c) =
     (a @ map fst (station_reports chargers reps),
      b @ map (\<lambda>r. fst (snd r)) (station_reports chargers reps),
      c @ up_intervals_of (station_reports chargers reps))"
proof (induction chargers arbitrary: a b c)
  case Nil
  show ?case by (simp add: station_reports_def up_intervals_of_def)
next
  case (Cons cid chargers)
  show ?case
    by (simp add: fold_collect_report Cons.IH)
       (simp add: station_reports_def up_intervals_of_def)
qed

lemma collect_eq:
  "collect chargers reps =
     (map fst (station_reports chargers reps),
      map (\<lambda>r. fst (snd r)) (station_reports chargers reps),
      up_intervals_of (station_reports chargers reps))"
  by (simp add: collect_def fold_collect)

lemma fold_clip:
  "fold (\<lambda>(s, e) total.
           (let a = max s clip_start; b = min e clip_end
            in if b > a then total + (b - a) else total)) xs t =
   t + sum_list (map (clip clip_start clip_end) xs)"
  by (induction xs arbitrary: t) (auto simp: clip_def Let_def)

lemma clipped_total_sum:
  "clipped_total xs a b = sum_list (map (clip a b) xs)"
  unfolding clipped_total_def fold_clip by simp

lemma clip_nonneg: "0 \<le> clip a b p"
  by (simp add: clip_def)

lemma clipped_total_nonneg: "0 \<le> clipped_total xs a b"
  by (auto intro!: sum_list_nonneg simp: clipped_total_sum clip_nonneg)

lemma clipped_sum_bound:
  "separated xs \<Longrightarrow> \<forall>p \<in> set xs. lo \<le> fst p \<Longrightarrow>
   sum_list (map (clip a b) xs) \<le> max 0 (b - max a lo)"
proof (induction xs arbitrary: lo)
  case Nil
  show ?case by simp
next
  case (Cons p xs)
  from Cons.prems have sep: "separated xs" and lt: "fst p < snd p" and lo: "lo \<le> fst p"
    and far: "\<forall>q \<in> set xs. snd p \<le> fst q"
    by (auto simp: separated_def)
  have ih: "sum_list (map (clip a b) xs) \<le> max 0 (b - max a (snd p))"
    by (rule Cons.IH [OF sep far])
  have "clip a b p + max 0 (b - max a (snd p)) \<le> max 0 (b - max a lo)"
    using lt lo by (simp add: clip_def max_def min_def)
  then show ?case using ih by simp
qed

lemma clipped_total_le_window:
  assumes "separated xs" and "a < b"
  shows "clipped_total xs a b \<le> b - a"
proof (cases xs)
  case Nil
  then show ?thesis using assms by (simp add: clipped_total_sum)
next
  case (Cons p rest)
  define lo where "lo = Min (fst ` set xs)"
  have "\<forall>q \<in> set xs. lo \<le> fst q" by (simp add: lo_def)
  from clipped_sum_bound [OF assms(1) this, of a b]
  show ?thesis using assms(2) by (simp add: clipped_total_sum max_def split: if_splits)
qed

lemma map_of_fold_update:
  "map_of (fold (\<lambda>k r. AList.update k (f k) r) ks r0) k =
     (if k \<in> set ks then Some (f k) else map_of r0 k)"
  by (induction ks arbitrary: r0) (auto simp: update_conv')

lemma map_of_compute:
  "map_of (compute_station_uptime s2c reps) station_id =
     (if station_id \<in> fst ` set s2c
      then Some (station_uptime (dict_get s2c station_id) reps) else None)"
  by (simp add: compute_station_uptime_def map_of_fold_update)

lemma station_uptime_quotient:
  assumes c: "collect chargers reps = (all_starts, all_ends, up_intervals)"
    and ne: "all_starts \<noteq> []"
    and pos: "Min (set all_starts) < Max (set all_ends)"
  shows "station_uptime chargers reps =
           clipped_total (merge_intervals up_intervals) (Min (set all_starts)) (Max (set all_ends)) * 100
             div (Max (set all_ends) - Min (set all_starts))
         \<and> 0 \<le> clipped_total (merge_intervals up_intervals) (Min (set all_starts)) (Max (set all_ends))
         \<and> clipped_total (merge_intervals up_intervals) (Min (set all_starts)) (Max (set all_ends))
             \<le> Max (set all_ends) - Min (set all_starts)"
proof -
  define ws where "ws = Min (set all_starts)"
  define we where "we = Max (set all_ends)"
  define up_time where "up_time = clipped_total (merge_intervals up_intervals) ws we"
  have lt: "ws < we" using pos by (simp add: ws_def we_def)
  have ne2: "all_ends \<noteq> []" using c ne by (auto simp: collect_eq)
  have lo: "0 \<le> up_time" by (simp add: up_time_def clipped_total_nonneg)
  have sep: "separated (merge_intervals up_intervals)" using merge_props by blast
  have hi: "up_time \<le> we - ws"
    unfolding up_time_def by (rule clipped_total_le_window [OF sep lt])
  define d where "d = we - ws"
  have d: "0 < d" "up_time \<le> d" using lt hi by (simp_all add: d_def)
  have "0 \<le> up_time * 100 div d" using lo d by (simp add: pos_imp_zdiv_nonneg_iff)
  then have q0: "0 \<le> up_time * 100 div (we - ws)" by (simp add: d_def)
  have "up_time * 100 \<le> 100 * d" using d by simp
  then have "up_time * 100 div d \<le> 100 * d div d"
    by (rule zdiv_mono1) (use d in simp)
  then have "up_time * 100 div d \<le> 100" using d by simp
  then have q1: "up_time * 100 div (we - ws) \<le> 100" by (simp add: d_def)
  have "station_uptime chargers reps = up_time * 100 div (we - ws)"
    using ne ne2 lt q0 q1
    by (simp add: station_uptime_def c Let_def ws_def [symmetric] we_def [symmetric]
        up_time_def [symmetric])
  then show ?thesis using lo hi by (simp add: up_time_def ws_def we_def)
qed

lemma separated_disjoint:
  "separated xs \<Longrightarrow> sorted_wrt (\<lambda>a b. points a \<inter> points b = {}) xs"
  unfolding separated_def
  by (elim conjE, erule sorted_wrt_mono_rel [rotated]) (auto simp: points_def)

lemma separated_starts:
  "separated xs \<Longrightarrow> sorted_wrt (\<lambda>a b. fst a < fst b) xs"
proof -
  assume sep: "separated xs"
  then have all: "\<forall>p \<in> set xs. fst p < snd p" by (simp add: separated_def list_all_iff)
  from sep have "sorted_wrt (\<lambda>a b. snd a < fst b) xs" by (simp add: separated_def)
  then show ?thesis
    by (rule sorted_wrt_mono_rel [rotated]) (use all in fastforce)
qed

lemma mset_station_reports:
  assumes "mset chargers' = mset chargers"
    and "\<forall>cid. mset (dict_get reps' cid) = mset (dict_get reps cid)"
  shows "mset (station_reports chargers' reps') = mset (station_reports chargers reps)"
proof -
  have "mset (station_reports chargers' reps') = (\<Sum>cid\<leftarrow>chargers'. mset (dict_get reps cid))"
    using assms(2) by (simp add: station_reports_def mset_concat comp_def)
  also have "\<dots> = sum_mset (image_mset (\<lambda>cid. mset (dict_get reps cid)) (mset chargers'))"
    by (simp flip: sum_mset_sum_list)
  also have "\<dots> = (\<Sum>cid\<leftarrow>chargers. mset (dict_get reps cid))"
    unfolding assms(1) by (simp flip: sum_mset_sum_list)
  finally show ?thesis by (simp add: station_reports_def mset_concat comp_def)
qed

lemma station_uptime_mset:
  assumes "mset rs' = mset rs"
    and "rs' = station_reports chargers' reps'" and "rs = station_reports chargers reps"
  shows "station_uptime chargers' reps' = station_uptime chargers reps"
proof -
  have s: "set rs' = set rs" using assms(1) by (rule mset_eq_setD)
  have e: "(rs' = []) = (rs = [])" using assms(1) by (metis mset_zero_iff)
  have "mset (up_intervals_of rs') = mset (up_intervals_of rs)"
    using assms(1) by (simp add: up_intervals_of_def)
  then have m: "merge_intervals (up_intervals_of rs') = merge_intervals (up_intervals_of rs)"
    by (rule merge_perm)
  show ?thesis
    using s e m
    by (simp add: station_uptime_def collect_eq assms(2,3) [symmetric] Let_def)
qed

subsection \<open>The end-to-end example\<close>

lemma parse_example:
  "parse_document (readlines example_document) =
     Inr ([(1, [10, 11])], [(10, 1), (11, 1)],
          [(10, [(0, 100, True)]), (11, [(50, 150, False)])])"
  by code_simp

lemma collect_example:
  "collect [10, 11] [(10, [(0, 100, True)]), (11, [(50, 150, False)])] =
     ([0, 50], [100, 150], [(0, 100)])"
  by code_simp

lemma uptime_example:
  "compute_station_uptime [(1, [10, 11])]
     [(10, [(0, 100, True)]), (11, [(50, 150, False)])] = [(1, 66)]"
  by code_simp

text \<open>
  Claim C4. On the document with the station line \<open>1 10 11\<close> and the report lines
  \<open>10 0 100 true\<close> and \<open>11 50 150 false\<close>, whatever the program name and the path,
  the program exits with status 0, prints the single line \<open>1 66\<close> and nothing on the
  error channel. On the way: the station has the chargers 10 and 11, the starts are
  0 and 50 and the ends 100 and 150 (the window is [0, 150]), the merged up-intervals
  are [(0, 100)], the covered duration is 100, and 100 * 100 div 150 = 66.
\<close>

theorem example_end_to_end:
  "main (\<lambda>p. Inr example_document) [prog, path] = (0, [''1 66''], [])
   \<and> parse_document (readlines example_document) =
       Inr ([(1, [10, 11])], [(10, 1), (11, 1)],
            [(10, [(0, 100, True)]), (11, [(50, 150, False)])])
   \<and> collect [10, 11] [(10, [(0, 100, True)]), (11, [(50, 150, False)])] =
       ([0, 50], [100, 150], [(0, 100)])
   \<and> merge_intervals [(0, 100)] = [(0, 100)]
   \<and> clipped_total [(0, 100)] 0 150 = 100
   \<and> station_uptime [10, 11] [(10, [(0, 100, True)]), (11, [(50, 150, False)])] = 66"
proof -
  have m: "main (\<lambda>p. Inr example_document) [prog, path] = (0, [''1 66''], [])"
    unfolding main_def parse_input_def
    by (simp add: parse_example uptime_example) code_simp
  have "merge_intervals [(0, 100)] = [(0, 100)]" by code_simp
  moreover have "clipped_total [(0, 100)] 0 150 = 100" by code_simp
  moreover have
    "station_uptime [10, 11] [(10, [(0, 100, True)]), (11, [(50, 150, False)])] = 66"
    by code_simp
  ultimately show ?thesis using m parse_example collect_example by simp
qed

theorem example_end_to_end_witness:
  "main (\<lambda>p. Inr example_document) [''station_uptime.py'', ''input.txt''] =
     (0, [''1 66''], [])"
  using example_end_to_end [of "''station_uptime.py''" "''input.txt''"] by simp

subsection \<open>The interval merger is correct\<close>

text \<open>
  Claim C1. For every list of integer pairs, the output of the merger is sorted
  ascending by start (strictly), its intervals are pairwise disjoint (more: each is
  non-empty and ends strictly before the next one starts, so touching intervals were
  merged), and the points it covers are the points covered by the input intervals with
  start < end. The empty input gives the empty output. (\<open>sorted_wrt P\<close> states \<open>P\<close>
  of every two elements in the order of the list, not only of neighbours.)
\<close>

theorem merge_intervals_correct:
  "sorted_wrt (\<lambda>a b. fst a < fst b) (merge_intervals xs)
   \<and> sorted_wrt (\<lambda>a b. points a \<inter> points b = {}) (merge_intervals xs)
   \<and> sorted_wrt (\<lambda>a b. snd a < fst b) (merge_intervals xs)
   \<and> list_all (\<lambda>p. fst p < snd p) (merge_intervals xs)
   \<and> covered (merge_intervals xs) = covered (filter (\<lambda>(s, e). s < e) xs)
   \<and> merge_intervals [] = []"
proof -
  have sep: "separated (merge_intervals xs)" using merge_props by blast
  have "merge_intervals [] = []" by (simp add: merge_intervals_def)
  then show ?thesis
    using sep separated_disjoint [OF sep] separated_starts [OF sep] merge_props [of xs]
    by (simp add: separated_def)
qed

theorem merge_intervals_correct_witness:
  "merge_intervals [(5, 20), (0, 10), (30, 40), (40, 50), (7, 7), (9, 3), (60, 61)] =
     [(0, 20), (30, 50), (60, 61)]
   \<and> sorted_wrt (\<lambda>a b. points a \<inter> points b = {}) [(0, 20), (30, 50), (60, 61)]
   \<and> covered [(0, 20), (30, 50), (60, 61)] =
       covered [(5, 20), (0, 10), (30, 40), (40, 50), (60, 61)]"
proof -
  have m: "merge_intervals [(5, 20), (0, 10), (30, 40), (40, 50), (7, 7), (9, 3), (60, 61)] =
     [(0, 20), (30, 50), (60, 61)]" by code_simp
  show ?thesis
    using merge_intervals_correct [of "[(5, 20), (0, 10), (30, 40), (40, 50), (7, 7), (9, 3), (60, 61)]"]
    unfolding m by simp
qed

subsection \<open>Idempotence\<close>

text \<open>
  Claim C7. The merger is idempotent: merging the output of a merge gives that same
  list.
\<close>

theorem merge_intervals_idempotent:
  "merge_intervals (merge_intervals xs) = merge_intervals xs"
proof -
  have "separated (merge_intervals xs)" using merge_props by blast
  then show ?thesis by (rule merge_separated_id)
qed

theorem merge_intervals_idempotent_witness:
  "merge_intervals (merge_intervals [(5, 20), (0, 10), (30, 40), (40, 50)]) = [(0, 20), (30, 50)]"
proof -
  have "merge_intervals [(5, 20), (0, 10), (30, 40), (40, 50)] = [(0, 20), (30, 50)]"
    by code_simp
  then show ?thesis
    using merge_intervals_idempotent [of "[(5, 20), (0, 10), (30, 40), (40, 50)]"] by simp
qed

subsection \<open>Independence of the order\<close>

text \<open>
  Claim C8. The output of the merger is the same for a list and for every permutation
  of it. Consequently the percentage of a station is the same whatever the order in
  which its chargers are visited and whatever the order of the reports of each charger.
\<close>

theorem order_independent:
  "(mset ys = mset xs \<longrightarrow> merge_intervals ys = merge_intervals xs)
   \<and> (mset chargers' = mset chargers
        \<and> (\<forall>cid. mset (dict_get reps' cid) = mset (dict_get reps cid))
      \<longrightarrow> station_uptime chargers' reps' = station_uptime chargers reps)"
proof (intro conjI impI)
  assume "mset ys = mset xs"
  then show "merge_intervals ys = merge_intervals xs" by (rule merge_perm)
next
  assume a: "mset chargers' = mset chargers
        \<and> (\<forall>cid. mset (dict_get reps' cid) = mset (dict_get reps cid))"
  then have "mset (station_reports chargers' reps') = mset (station_reports chargers reps)"
    using mset_station_reports by blast
  then show "station_uptime chargers' reps' = station_uptime chargers reps"
    by (rule station_uptime_mset) simp_all
qed

theorem order_independent_witness:
  "mset [(5, 20), (0, 10), (30, 31)] = mset [(0, 10), (30, 31), (5 :: int, 20 :: int)]
   \<and> merge_intervals [(5, 20), (0, 10), (30, 31)] = merge_intervals [(0, 10), (30, 31), (5, 20)]
   \<and> mset [11, 10] = mset [10, 11 :: int]
   \<and> station_uptime [11, 10] [(10, [(0, 100, True)]), (11, [(50, 150, False)])] =
       station_uptime [10, 11] [(10, [(0, 100, True)]), (11, [(50, 150, False)])]"
proof -
  have a: "mset [(5, 20), (0, 10), (30, 31)] = mset [(0, 10), (30, 31), (5 :: int, 20 :: int)]"
    by (simp add: add_mset_commute)
  have b: "mset [11, 10] = mset [10, 11 :: int]" by (simp add: add_mset_commute)
  show ?thesis
    using a b
      order_independent [of "[(5, 20), (0, 10), (30, 31)]" "[(0, 10), (30, 31), (5, 20)]"
        "[11, 10]" "[10, 11]" "[(10, [(0, 100, True)]), (11, [(50, 150, False)])]"
        "[(10, [(0, 100, True)]), (11, [(50, 150, False)])]"]
    by blast
qed

subsection \<open>The percentage\<close>

text \<open>
  Claim C2. For every station of the model with at least one report among its chargers
  and a window whose end is after its start, the computed uptime is the quotient
  covered\_duration * 100 div window\_duration, where the covered duration is the clipped
  total of the merged up-intervals. This quotient lies between 0 and 100, so the final
  clamp returns it unchanged; it is the floor of the exact ratio, and the covered
  duration lies between 0 and the duration of the window.
\<close>

theorem uptime_percentage:
  assumes "station_id \<in> fst ` set s2c"
    and "rs = station_reports (dict_get s2c station_id) reps"
    and "rs \<noteq> []"
    and "window_start = Min (fst ` set rs)"
    and "window_end = Max ((\<lambda>r. fst (snd r)) ` set rs)"
    and "window_start < window_end"
    and "covered_duration =
           clipped_total (merge_intervals (up_intervals_of rs)) window_start window_end"
    and "window_duration = window_end - window_start"
    and "pct = covered_duration * 100 div window_duration"
  shows "map_of (compute_station_uptime s2c reps) station_id = Some pct
         \<and> 0 \<le> pct \<and> pct \<le> 100
         \<and> 0 \<le> covered_duration \<and> covered_duration \<le> window_duration
         \<and> pct * window_duration \<le> covered_duration * 100
         \<and> covered_duration * 100 < (pct + 1) * window_duration"
proof -
  obtain all_starts all_ends up_intervals where
    c: "collect (dict_get s2c station_id) reps = (all_starts, all_ends, up_intervals)"
    by (cases "collect (dict_get s2c station_id) reps") auto
  then have eqs: "all_starts = map fst rs" "all_ends = map (\<lambda>r. fst (snd r)) rs"
    "up_intervals = up_intervals_of rs"
    by (simp_all add: collect_eq assms(2))
  have ne: "all_starts \<noteq> []" using assms(3) by (simp add: eqs)
  have w: "Min (set all_starts) = window_start" "Max (set all_ends) = window_end"
    by (simp_all add: eqs assms(4,5))
  then have pos: "Min (set all_starts) < Max (set all_ends)" using assms(6) by simp
  from station_uptime_quotient [OF c ne pos]
  have q: "station_uptime (dict_get s2c station_id) reps = pct"
    and lo: "0 \<le> covered_duration" and hi: "covered_duration \<le> window_duration"
    by (simp_all add: eqs assms(4,5,7,8,9))
  have t: "0 < window_duration" using assms(6,8) by simp
  have p0: "0 \<le> pct" unfolding assms(9) using lo t by (simp add: pos_imp_zdiv_nonneg_iff)
  have "covered_duration * 100 \<le> 100 * window_duration" using hi by simp
  then have "covered_duration * 100 div window_duration \<le> 100 * window_duration div window_duration"
    by (rule zdiv_mono1) (rule t)
  then have p1: "pct \<le> 100" using t by (simp add: assms(9))
  have dm: "covered_duration * 100 =
      window_duration * pct + covered_duration * 100 mod window_duration"
    unfolding assms(9) by simp
  have m0: "0 \<le> covered_duration * 100 mod window_duration" using t by simp
  have m1: "covered_duration * 100 mod window_duration < window_duration" using t by simp
  have f1: "pct * window_duration \<le> covered_duration * 100"
    using dm m0 by (simp add: algebra_simps)
  have f2: "covered_duration * 100 < (pct + 1) * window_duration"
    using dm m1 by (simp add: algebra_simps)
  show ?thesis
    using q p0 p1 lo hi f1 f2 assms(1) by (simp add: map_of_compute)
qed

theorem uptime_percentage_witness:
  "map_of (compute_station_uptime [(1, [10, 11])]
             [(10, [(0, 100, True)]), (11, [(50, 150, False)])]) 1 = Some 66
   \<and> clipped_total (merge_intervals [(0, 100)]) 0 150 = 100"
proof -
  have a: "(1 :: int) \<in> fst ` set [(1, [10, 11 :: int])]" by simp
  have b: "[(0 :: int, 100 :: int, True), (50, 150, False)] =
      station_reports (dict_get [(1 :: int, [10, 11])] 1)
        [(10, [(0, 100, True)]), (11, [(50, 150, False)])]"
    by code_simp
  have c: "[(0 :: int, 100 :: int, True), (50, 150, False)] \<noteq> []" by simp
  have d: "(0 :: int) = Min (fst ` set [(0, 100 :: int, True), (50, 150, False)])" by simp
  have e: "(150 :: int) = Max ((\<lambda>r. fst (snd r)) ` set [(0 :: int, 100, True), (50, 150, False)])"
    by simp
  have f: "(0 :: int) < 150" by simp
  have g: "(100 :: int) =
      clipped_total (merge_intervals (up_intervals_of [(0, 100, True), (50, 150, False)])) 0 150"
    by code_simp
  have h: "(150 :: int) = 150 - 0" by simp
  have i: "(66 :: int) = 100 * 100 div 150" by simp
  have j: "clipped_total (merge_intervals [(0, 100)]) 0 150 = 100" by code_simp
  show ?thesis using uptime_percentage [OF a b c d e f g h i] j by simp
qed

subsection \<open>Stations without a window\<close>

text \<open>
  Claim C3. For every station of the model: if none of its chargers has a report, the
  computed uptime is 0; and if the largest end of its reports is not after their smallest
  start (both taken over all reports of all its chargers, whatever their flag), the
  computed uptime is 0.
\<close>

theorem no_window_gives_zero:
  assumes "station_id \<in> fst ` set s2c"
    and "rs = station_reports (dict_get s2c station_id) reps"
  shows "((\<forall>cid \<in> set (dict_get s2c station_id). dict_get reps cid = [])
            \<longrightarrow> map_of (compute_station_uptime s2c reps) station_id = Some 0)
         \<and> (rs \<noteq> [] \<and> Max ((\<lambda>r. fst (snd r)) ` set rs) \<le> Min (fst ` set rs)
            \<longrightarrow> map_of (compute_station_uptime s2c reps) station_id = Some 0)"
proof (intro conjI impI)
  assume "\<forall>cid \<in> set (dict_get s2c station_id). dict_get reps cid = []"
  then have "rs = []" by (simp add: assms(2) station_reports_def)
  then show "map_of (compute_station_uptime s2c reps) station_id = Some 0"
    using assms(1)
    by (simp add: map_of_compute station_uptime_def collect_eq assms(2) [symmetric])
next
  assume "rs \<noteq> [] \<and> Max ((\<lambda>r. fst (snd r)) ` set rs) \<le> Min (fst ` set rs)"
  then have ne: "rs \<noteq> []"
    and le: "Max (set (map (\<lambda>r. fst (snd r)) rs)) \<le> Min (set (map fst rs))"
    by simp_all
  have "station_uptime (dict_get s2c station_id) reps = 0"
    unfolding station_uptime_def collect_eq assms(2) [symmetric]
    using ne le by (simp only: prod.case Let_def map_is_Nil_conv simp_thms if_True if_False)
  then show "map_of (compute_station_uptime s2c reps) station_id = Some 0"
    using assms(1) by (simp add: map_of_compute)
qed

theorem no_window_gives_zero_witness:
  "map_of (compute_station_uptime [(1, [10]), (2, [11])] [(11, [(5, 5, True)])]) 1 = Some 0
   \<and> map_of (compute_station_uptime [(1, [10]), (2, [11])] [(11, [(5, 5, True)])]) 2 = Some 0"
proof -
  have a1: "(1 :: int) \<in> fst ` set [(1, [10 :: int]), (2, [11])]" by simp
  have a2: "(2 :: int) \<in> fst ` set [(1, [10 :: int]), (2, [11])]" by simp
  have b1: "[] = station_reports (dict_get [(1 :: int, [10]), (2, [11])] 1) [(11, [(5, 5, True)])]"
    by code_simp
  have b2: "[(5 :: int, 5 :: int, True)] =
      station_reports (dict_get [(1 :: int, [10]), (2, [11])] 2) [(11, [(5, 5, True)])]"
    by code_simp
  have c1: "\<forall>cid \<in> set (dict_get [(1, [10 :: int]), (2, [11])] 1).
      dict_get [(11 :: int, [(5 :: int, 5 :: int, True)])] cid = []"
    by (simp add: dict_get_def)
  have c2: "[(5 :: int, 5 :: int, True)] \<noteq> []
      \<and> Max ((\<lambda>r. fst (snd r)) ` set [(5 :: int, 5 :: int, True)])
          \<le> Min (fst ` set [(5 :: int, 5 :: int, True)])"
    by simp
  show ?thesis
    using no_window_gives_zero [OF a1 b1] no_window_gives_zero [OF a2 b2] c1 c2 by blast
qed

subsection \<open>Lemmas on the parser\<close>

lemma parse_lines_append:
  "parse_lines st (xs @ ys) =
     (case parse_lines st xs of Inl e \<Rightarrow> Inl e | Inr st' \<Rightarrow> parse_lines st' ys)"
  by (induction xs arbitrary: st) (auto split: sum.splits)

lemma dict_get_update:
  "dict_get (AList.update k v d) k' = (if k' = k then v else dict_get d k')"
  by (simp add: dict_get_def update_conv')

lemma set_set_add: "set (set_add x xs) = insert x (set xs)"
  by (auto simp: set_add_def)

lemma distinct_set_add: "distinct xs \<Longrightarrow> distinct (set_add x xs)"
  by (simp add: set_add_def)

lemma bind_chargers_ok:
  assumes "\<forall>cid \<in> set cids. map_of (charger_to_station st) cid = None
                         \<or> map_of (charger_to_station st) cid = Some sid"
    and "map_of (station_to_chargers st) sid = Some cs"
  shows "\<exists>st'. bind_chargers sid cids st = Inr st'
           \<and> state st' = state st \<and> reports st' = reports st
           \<and> set (dict_get (station_to_chargers st') sid) = set cs \<union> set cids
           \<and> (\<forall>k. k \<noteq> sid \<longrightarrow> map_of (station_to_chargers st') k = map_of (station_to_chargers st) k)
           \<and> map_of (station_to_chargers st') sid \<noteq> None
           \<and> (\<forall>c. map_of (charger_to_station st') c =
                  (if c \<in> set cids then Some sid else map_of (charger_to_station st) c))"
  using assms
proof (induction cids arbitrary: st cs)
  case Nil
  then show ?case by (simp add: dict_get_def)
next
  case (Cons cid cids)
  define st1 where "st1 = st\<lparr>charger_to_station := AList.update cid sid (charger_to_station st),
      station_to_chargers := AList.update sid (set_add cid cs) (station_to_chargers st)\<rparr>"
  have noc: "\<not> (case map_of (charger_to_station st) cid of
            None \<Rightarrow> False | Some other \<Rightarrow> other \<noteq> sid)"
    using Cons.prems(1) by (auto split: option.splits)
  have step: "bind_chargers sid (cid # cids) st = bind_chargers sid cids st1"
    using noc Cons.prems(2) by (simp add: st1_def)
  have p1: "\<forall>c \<in> set cids. map_of (charger_to_station st1) c = None
                         \<or> map_of (charger_to_station st1) c = Some sid"
    using Cons.prems(1) by (simp add: st1_def update_conv')
  have p2: "map_of (station_to_chargers st1) sid = Some (set_add cid cs)"
    by (simp add: st1_def update_conv')
  from Cons.IH [OF p1 p2] obtain st' where
    r: "bind_chargers sid cids st1 = Inr st'"
      "state st' = state st1" "reports st' = reports st1"
      "set (dict_get (station_to_chargers st') sid) = set (set_add cid cs) \<union> set cids"
      "\<forall>k. k \<noteq> sid \<longrightarrow> map_of (station_to_chargers st') k = map_of (station_to_chargers st1) k"
      "map_of (station_to_chargers st') sid \<noteq> None"
      "\<forall>c. map_of (charger_to_station st') c =
                  (if c \<in> set cids then Some sid else map_of (charger_to_station st1) c)"
    by blast
  have "\<forall>c. map_of (charger_to_station st') c =
                  (if c \<in> set (cid # cids) then Some sid else map_of (charger_to_station st) c)"
    using r(7) by (simp add: st1_def update_conv')
  moreover have "\<forall>k. k \<noteq> sid \<longrightarrow>
      map_of (station_to_chargers st') k = map_of (station_to_chargers st) k"
    using r(5) by (simp add: st1_def update_conv')
  moreover have "set (dict_get (station_to_chargers st') sid) = set cs \<union> set (cid # cids)"
    using r(4) by (simp add: set_set_add)
  moreover have "state st' = state st" "reports st' = reports st"
    using r(2,3) by (simp_all add: st1_def)
  ultimately show ?case using step r(1,6) by simp
qed

lemma bind_chargers_conflict:
  assumes "\<exists>cid \<in> set cids. \<exists>other. map_of (charger_to_station st) cid = Some other \<and> other \<noteq> sid"
    and "map_of (station_to_chargers st) sid = Some cs"
  shows "\<exists>cid \<in> set cids. bind_chargers sid cids st = Inl (MultipleStations cid)
           \<and> (\<exists>other. map_of (charger_to_station st) cid = Some other \<and> other \<noteq> sid)"
  using assms
proof (induction cids arbitrary: st cs)
  case Nil
  then show ?case by simp
next
  case (Cons cid cids)
  show ?case
  proof (cases "\<exists>other. map_of (charger_to_station st) cid = Some other \<and> other \<noteq> sid")
    case True
    then have "bind_chargers sid (cid # cids) st = Inl (MultipleStations cid)" by auto
    then show ?thesis using True by simp
  next
    case False
    define st1 where "st1 = st\<lparr>charger_to_station := AList.update cid sid (charger_to_station st),
      station_to_chargers := AList.update sid (set_add cid cs) (station_to_chargers st)\<rparr>"
    have noc: "\<not> (case map_of (charger_to_station st) cid of
            None \<Rightarrow> False | Some other \<Rightarrow> other \<noteq> sid)"
      using False by (auto split: option.splits)
    have step: "bind_chargers sid (cid # cids) st = bind_chargers sid cids st1"
      using noc Cons.prems(2) by (simp add: st1_def)
    from Cons.prems(1) False obtain c other where
      c: "c \<in> set cids" "map_of (charger_to_station st) c = Some other" "other \<noteq> sid"
      by auto
    then have "c \<noteq> cid" using False by auto
    then have p1: "\<exists>c \<in> set cids. \<exists>other. map_of (charger_to_station st1) c = Some other \<and> other \<noteq> sid"
      using c by (auto simp: st1_def update_conv')
    have p2: "map_of (station_to_chargers st1) sid = Some (set_add cid cs)"
      by (simp add: st1_def update_conv')
    from Cons.IH [OF p1 p2] obtain c' other' where
      r: "c' \<in> set cids" "bind_chargers sid cids st1 = Inl (MultipleStations c')"
        "map_of (charger_to_station st1) c' = Some other'" "other' \<noteq> sid"
      by blast
    have "c' \<noteq> cid" using r(3,4) by (auto simp: st1_def update_conv')
    then have "map_of (charger_to_station st) c' = Some other'"
      using r(3) by (simp add: st1_def update_conv')
    then show ?thesis using r(1,2,4) step by auto
  qed
qed

lemma parse_line_station:
  assumes "state st = 1" and "is_station_line ln sid cids"
  shows "parse_line st ln = bind_chargers sid cids (ensure_station sid st)"
  using assms
  by (auto simp: parse_line_def station_line_def is_station_line_def ensure_station_def
      split: list.splits)

lemma ensure_station_props:
  "map_of (station_to_chargers (ensure_station sid st)) sid =
     Some (dict_get (station_to_chargers st) sid)"
  "k \<noteq> sid \<Longrightarrow> map_of (station_to_chargers (ensure_station sid st)) k =
     map_of (station_to_chargers st) k"
  "charger_to_station (ensure_station sid st) = charger_to_station st"
  "state (ensure_station sid st) = state st"
  "reports (ensure_station sid st) = reports st"
proof -
  show "map_of (station_to_chargers (ensure_station sid st)) sid =
     Some (dict_get (station_to_chargers st) sid)"
  proof (cases "map_of (station_to_chargers st) sid")
    case None
    then have "sid \<notin> fst ` set (station_to_chargers st)" by (simp add: map_of_eq_None_iff)
    then show ?thesis using None by (simp add: ensure_station_def update_conv' dict_get_def)
  next
    case (Some cs)
    then have "sid \<in> fst ` set (station_to_chargers st)"
      by (metis map_of_eq_None_iff option.distinct(1))
    then show ?thesis using Some by (simp add: ensure_station_def dict_get_def)
  qed
qed (simp_all add: ensure_station_def update_conv')

lemma parse_line_station_ok:
  assumes "state st = 1" and "is_station_line ln sid cids"
    and "\<forall>cid \<in> set cids. map_of (charger_to_station st) cid = None
                         \<or> map_of (charger_to_station st) cid = Some sid"
  shows "\<exists>st'. parse_line st ln = Inr st'
           \<and> state st' = state st \<and> reports st' = reports st
           \<and> (\<forall>k. set (dict_get (station_to_chargers st') k) =
                  (if k = sid then set (dict_get (station_to_chargers st) sid) \<union> set cids
                   else set (dict_get (station_to_chargers st) k)))
           \<and> (\<forall>c. map_of (charger_to_station st') c =
                  (if c \<in> set cids then Some sid else map_of (charger_to_station st) c))"
proof -
  have a: "\<forall>cid \<in> set cids. map_of (charger_to_station (ensure_station sid st)) cid = None
               \<or> map_of (charger_to_station (ensure_station sid st)) cid = Some sid"
    using assms(3) by (simp add: ensure_station_props)
  from bind_chargers_ok [OF a ensure_station_props(1)] obtain st' where
    r: "bind_chargers sid cids (ensure_station sid st) = Inr st'"
      "state st' = state (ensure_station sid st)" "reports st' = reports (ensure_station sid st)"
      "set (dict_get (station_to_chargers st') sid) =
         set (dict_get (station_to_chargers st) sid) \<union> set cids"
      "\<forall>k. k \<noteq> sid \<longrightarrow> map_of (station_to_chargers st') k =
         map_of (station_to_chargers (ensure_station sid st)) k"
      "\<forall>c. map_of (charger_to_station st') c =
         (if c \<in> set cids then Some sid
          else map_of (charger_to_station (ensure_station sid st)) c)"
    by blast
  have "\<forall>k. set (dict_get (station_to_chargers st') k) =
          (if k = sid then set (dict_get (station_to_chargers st) sid) \<union> set cids
           else set (dict_get (station_to_chargers st) k))"
    using r(4,5) by (simp add: dict_get_def ensure_station_props)
  then show ?thesis
    using r(1,2,3,6) parse_line_station [OF assms(1,2)] by (simp add: ensure_station_props)
qed

lemma parse_line_station_conflict:
  assumes "state st = 1" and "is_station_line ln sid cids"
    and "\<exists>cid \<in> set cids. \<exists>other. map_of (charger_to_station st) cid = Some other \<and> other \<noteq> sid"
  shows "\<exists>cid \<in> set cids. parse_line st ln = Inl (MultipleStations cid)
           \<and> (\<exists>other. map_of (charger_to_station st) cid = Some other \<and> other \<noteq> sid)"
proof -
  have a: "\<exists>cid \<in> set cids. \<exists>other.
      map_of (charger_to_station (ensure_station sid st)) cid = Some other \<and> other \<noteq> sid"
    using assms(3) by (simp add: ensure_station_props)
  from bind_chargers_conflict [OF a ensure_station_props(1)]
  show ?thesis using parse_line_station [OF assms(1,2)] by (simp add: ensure_station_props)
qed

lemma station_lines_union:
  assumes "list_all2 (\<lambda>ln d. is_station_line ln (fst d) (snd d)) lns decls"
    and "state st = 1"
    and "\<forall>c s. map_of (charger_to_station st) c = Some s \<longrightarrow> owner c = s"
    and "\<forall>d \<in> set decls. \<forall>c \<in> set (snd d). owner c = fst d"
  shows "\<exists>st'. parse_lines st lns = Inr st' \<and> state st' = 1 \<and> reports st' = reports st
           \<and> (\<forall>sid. set (dict_get (station_to_chargers st') sid) =
                  set (dict_get (station_to_chargers st) sid)
                  \<union> (\<Union>d \<in> {d \<in> set decls. fst d = sid}. set (snd d)))"
  using assms
proof (induction lns decls arbitrary: st rule: list_all2_induct)
  case Nil
  then show ?case by simp
next
  case (Cons ln lns d decls)
  have nc: "\<forall>cid \<in> set (snd d). map_of (charger_to_station st) cid = None
                         \<or> map_of (charger_to_station st) cid = Some (fst d)"
  proof
    fix cid assume "cid \<in> set (snd d)"
    then have "owner cid = fst d" using Cons.prems(3) by simp
    then show "map_of (charger_to_station st) cid = None
                 \<or> map_of (charger_to_station st) cid = Some (fst d)"
      using Cons.prems(2) by (cases "map_of (charger_to_station st) cid") auto
  qed
  from parse_line_station_ok [OF Cons.prems(1) Cons.hyps(1) nc] obtain st1 where
    r: "parse_line st ln = Inr st1" "state st1 = state st" "reports st1 = reports st"
      "\<forall>k. set (dict_get (station_to_chargers st1) k) =
          (if k = fst d then set (dict_get (station_to_chargers st) (fst d)) \<union> set (snd d)
           else set (dict_get (station_to_chargers st) k))"
      "\<forall>c. map_of (charger_to_station st1) c =
          (if c \<in> set (snd d) then Some (fst d) else map_of (charger_to_station st) c)"
    by blast
  have p1: "state st1 = 1" using r(2) Cons.prems(1) by simp
  have p2: "\<forall>c s. map_of (charger_to_station st1) c = Some s \<longrightarrow> owner c = s"
    using r(5) Cons.prems(2,3) by auto
  have p3: "\<forall>d \<in> set decls. \<forall>c \<in> set (snd d). owner c = fst d"
    using Cons.prems(3) by simp
  from Cons.IH [OF p1 p2 p3] obtain st' where
    i: "parse_lines st1 lns = Inr st'" "state st' = 1" "reports st' = reports st1"
      "\<forall>sid. set (dict_get (station_to_chargers st') sid) =
          set (dict_get (station_to_chargers st1) sid)
          \<union> (\<Union>d \<in> {d \<in> set decls. fst d = sid}. set (snd d))"
    by blast
  have "\<forall>sid. set (dict_get (station_to_chargers st') sid) =
          set (dict_get (station_to_chargers st) sid)
          \<union> (\<Union>d' \<in> {d' \<in> set (d # decls). fst d' = sid}. set (snd d'))"
    using i(4) r(4) by auto
  then show ?case using r(1,3) i(1,2,3) by simp
qed

subsection \<open>Referential conflicts and repeated stations\<close>

lemma parse_document_split:
  "parse_lines init_pstate (map str_strip pre) = Inr st \<Longrightarrow>
   parse_document (pre @ lns) =
     (case parse_lines st (map str_strip lns) of
        Inl e \<Rightarrow> Inl e
      | Inr st' \<Rightarrow> Inr (station_to_chargers st', charger_to_station st', reports st'))"
  by (simp add: parse_document_def parse_lines_append)

text \<open>
  Claim C5, as amended. Let the lines before a station line parse without error and
  leave the parser in station mode, and let all the tokens of the station line be
  integers. If one of its charger ids is bound to a different station id, parsing
  the document fails with the multi-station conflict error for such a charger,
  whatever follows. If each of its charger ids is unbound or bound to this same station
  id, the line raises no error and leaves its chargers bound to this station.
\<close>

theorem charger_conflict:
  assumes "parse_lines init_pstate (map str_strip pre) = Inr st"
    and "state st = 1"
    and "is_station_line (str_strip raw) station_id charger_ids"
  shows "((\<exists>cid \<in> set charger_ids. \<exists>other.
             map_of (charger_to_station st) cid = Some other \<and> other \<noteq> station_id)
          \<longrightarrow> (\<exists>cid \<in> set charger_ids.
                 parse_document (pre @ raw # post) = Inl (MultipleStations cid)
                 \<and> (\<exists>other. map_of (charger_to_station st) cid = Some other
                              \<and> other \<noteq> station_id)))
         \<and> ((\<forall>cid \<in> set charger_ids.
                map_of (charger_to_station st) cid = None
                \<or> map_of (charger_to_station st) cid = Some station_id)
          \<longrightarrow> (\<exists>s2c c2s reps.
                 parse_document (pre @ [raw]) = Inr (s2c, c2s, reps)
                 \<and> (\<forall>cid \<in> set charger_ids. map_of c2s cid = Some station_id)))"
proof (intro conjI impI)
  assume "\<exists>cid \<in> set charger_ids. \<exists>other.
             map_of (charger_to_station st) cid = Some other \<and> other \<noteq> station_id"
  from parse_line_station_conflict [OF assms(2,3) this] obtain cid where
    c: "cid \<in> set charger_ids" "parse_line st (str_strip raw) = Inl (MultipleStations cid)"
      "\<exists>other. map_of (charger_to_station st) cid = Some other \<and> other \<noteq> station_id"
    by blast
  have "parse_document (pre @ raw # post) = Inl (MultipleStations cid)"
    using c(2) by (simp add: parse_document_split [OF assms(1)])
  then show "\<exists>cid \<in> set charger_ids.
                 parse_document (pre @ raw # post) = Inl (MultipleStations cid)
                 \<and> (\<exists>other. map_of (charger_to_station st) cid = Some other
                              \<and> other \<noteq> station_id)"
    using c(1,3) by blast
next
  assume "\<forall>cid \<in> set charger_ids.
                map_of (charger_to_station st) cid = None
                \<or> map_of (charger_to_station st) cid = Some station_id"
  from parse_line_station_ok [OF assms(2,3) this] obtain st' where
    r: "parse_line st (str_strip raw) = Inr st'"
      "\<forall>c. map_of (charger_to_station st') c =
          (if c \<in> set charger_ids then Some station_id else map_of (charger_to_station st) c)"
    by blast
  have "parse_document (pre @ [raw]) =
          Inr (station_to_chargers st', charger_to_station st', reports st')"
    using r(1) by (simp add: parse_document_split [OF assms(1)])
  then show "\<exists>s2c c2s reps.
                 parse_document (pre @ [raw]) = Inr (s2c, c2s, reps)
                 \<and> (\<forall>cid \<in> set charger_ids. map_of c2s cid = Some station_id)"
    using r(2) by simp
qed

lemma state_after_one_station:
  "parse_lines init_pstate (map str_strip [''[Stations]'', ''1 5'']) =
     Inr \<lparr>state = 1, station_to_chargers = [(1, [5])], charger_to_station = [(5, 1)],
          reports = []\<rparr>"
  by code_simp

theorem charger_conflict_witness:
  "parse_document [''[Stations]'', ''1 5'', ''2 5'', ''3 9''] = Inl (MultipleStations 5)
   \<and> (\<exists>s2c c2s reps. parse_document [''[Stations]'', ''1 5'', ''1 5 6''] = Inr (s2c, c2s, reps)
        \<and> map_of c2s 5 = Some 1 \<and> map_of c2s 6 = Some 1)"
proof -
  let ?st = "\<lparr>state = 1, station_to_chargers = [(1, [5])], charger_to_station = [(5, 1)],
          reports = []\<rparr>"
  have s: "state ?st = 1" by simp
  have l1: "is_station_line (str_strip ''2 5'') 2 [5]" by code_simp
  have l2: "is_station_line (str_strip ''1 5 6'') 1 [5, 6]" by code_simp
  have h1: "\<exists>cid \<in> set [5]. \<exists>other.
      map_of (charger_to_station ?st) cid = Some other \<and> other \<noteq> 2" by simp
  have h2: "\<forall>cid \<in> set [5, 6]. map_of (charger_to_station ?st) cid = None
      \<or> map_of (charger_to_station ?st) cid = Some 1" by simp
  from charger_conflict [OF state_after_one_station s l1, of "[''3 9'']"] h1
  have a: "parse_document [''[Stations]'', ''1 5'', ''2 5'', ''3 9''] = Inl (MultipleStations 5)"
    by simp
  from charger_conflict [OF state_after_one_station s l2, of "[]"] h2
  have b: "\<exists>s2c c2s reps. parse_document [''[Stations]'', ''1 5'', ''1 5 6''] = Inr (s2c, c2s, reps)
        \<and> map_of c2s 5 = Some 1 \<and> map_of c2s 6 = Some 1"
    by simp
  show ?thesis using a b by simp
qed

text \<open>
  The claim as first stated fails on a station line with a token that is not an
  integer: the tokens are all read before any charger is bound. After \<open>1 5\<close>, the line
  \<open>2 5 x\<close> names the charger 5, bound to station 1, under station 2, and parsing fails
  with the invalid charger id error, not with the multi-station conflict error.
\<close>

theorem charger_conflict_counterexample:
  "parse_lines init_pstate (map str_strip [''[Stations]'', ''1 5'']) =
     Inr \<lparr>state = 1, station_to_chargers = [(1, [5])], charger_to_station = [(5, 1)],
          reports = []\<rparr>
   \<and> str_split (str_strip ''2 5 x'') = [''2'', ''5'', ''x'']
   \<and> py_int ''2'' = Some 2 \<and> py_int ''5'' = Some 5 \<and> py_int ''x'' = None
   \<and> parse_document [''[Stations]'', ''1 5'', ''2 5 x''] = Inl (InvalidChargerId ''2 5 x'')
   \<and> (\<forall>cid. parse_document [''[Stations]'', ''1 5'', ''2 5 x''] \<noteq> Inl (MultipleStations cid))"
proof -
  have a: "parse_document [''[Stations]'', ''1 5'', ''2 5 x''] = Inl (InvalidChargerId ''2 5 x'')"
    by code_simp
  have b: "str_split (str_strip ''2 5 x'') = [''2'', ''5'', ''x'']" by code_simp
  have c: "py_int ''2'' = Some 2" "py_int ''5'' = Some 5" "py_int ''x'' = None" by code_simp+
  show ?thesis using a b c state_after_one_station by simp
qed

text \<open>
  Claim C10. Let the lines before parse without error and leave the parser in station
  mode, and let the next lines be station lines, the same station id possibly on
  several of them. If there is no referential conflict (every charger has one owner
  among the bindings made so far and the new lines), parsing succeeds, and the charger set of
  every station is the set it had before together with the charger ids of all the
  lines that name this station: a later line extends the set.
\<close>

theorem station_lines_accumulate:
  assumes "parse_lines init_pstate (map str_strip pre) = Inr st"
    and "state st = 1"
    and "list_all2 (\<lambda>raw d. is_station_line (str_strip raw) (fst d) (snd d)) lns decls"
    and "\<forall>c s. map_of (charger_to_station st) c = Some s \<longrightarrow> owner c = s"
    and "\<forall>d \<in> set decls. \<forall>c \<in> set (snd d). owner c = fst d"
  shows "\<exists>s2c c2s reps.
           parse_document (pre @ lns) = Inr (s2c, c2s, reps)
           \<and> (\<forall>station_id. set (dict_get s2c station_id) =
                  set (dict_get (station_to_chargers st) station_id)
                  \<union> (\<Union>d \<in> {d \<in> set decls. fst d = station_id}. set (snd d)))"
proof -
  have l: "list_all2 (\<lambda>ln d. is_station_line ln (fst d) (snd d)) (map str_strip lns) decls"
    using assms(3) by (simp add: list_all2_map1)
  from station_lines_union [OF l assms(2,4,5)] obtain st' where
    r: "parse_lines st (map str_strip lns) = Inr st'"
      "\<forall>sid. set (dict_get (station_to_chargers st') sid) =
          set (dict_get (station_to_chargers st) sid)
          \<union> (\<Union>d \<in> {d \<in> set decls. fst d = sid}. set (snd d))"
    by blast
  show ?thesis using r by (simp add: parse_document_split [OF assms(1)])
qed

lemma state_after_marker:
  "parse_lines init_pstate (map str_strip [''[Stations]'']) =
     Inr \<lparr>state = 1, station_to_chargers = [], charger_to_station = [], reports = []\<rparr>"
  by code_simp

theorem station_lines_accumulate_witness:
  "\<exists>s2c c2s reps.
     parse_document [''[Stations]'', ''1 5'', ''2 7'', ''1 6 5''] = Inr (s2c, c2s, reps)
     \<and> set (dict_get s2c 1) = {5, 6} \<and> set (dict_get s2c 2) = {7}"
proof -
  let ?st = "\<lparr>state = 1, station_to_chargers = [], charger_to_station = [], reports = []\<rparr>"
  let ?decls = "[(1, [5]), (2, [7]), (1, [6, 5])] :: (int \<times> int list) list"
  let ?owner = "\<lambda>c :: int. if c = 7 then 2 else (1 :: int)"
  have s: "state ?st = 1" by simp
  have l1: "is_station_line (str_strip ''1 5'') 1 [5]" by code_simp
  have l2: "is_station_line (str_strip ''2 7'') 2 [7]" by code_simp
  have l3: "is_station_line (str_strip ''1 6 5'') 1 [6, 5]" by code_simp
  have l: "list_all2 (\<lambda>raw d. is_station_line (str_strip raw) (fst d) (snd d))
      [''1 5'', ''2 7'', ''1 6 5''] ?decls"
    using l1 l2 l3 by simp
  have o1: "\<forall>c s. map_of (charger_to_station ?st) c = Some s \<longrightarrow> ?owner c = s" by simp
  have o2: "\<forall>d \<in> set ?decls. \<forall>c \<in> set (snd d). ?owner c = fst d" by simp
  from station_lines_accumulate [OF state_after_marker s l o1 o2]
  obtain s2c c2s reps where
    r: "parse_document ([''[Stations]''] @ [''1 5'', ''2 7'', ''1 6 5'']) = Inr (s2c, c2s, reps)"
      "\<forall>station_id. set (dict_get s2c station_id) =
          set (dict_get (station_to_chargers ?st) station_id)
          \<union> (\<Union>d \<in> {d \<in> set ?decls. fst d = station_id}. set (snd d))"
    by blast
  have e: "set (dict_get (station_to_chargers ?st) k) = {}" for k by (simp add: dict_get_def)
  have "{d \<in> set ?decls. fst d = 1} = {(1, [5]), (1, [6, 5])}" by auto
  then have a: "set (dict_get s2c 1) = {5, 6}" using r(2) e by auto
  have "{d \<in> set ?decls. fst d = 2} = {(2, [7])}" by auto
  then have b: "set (dict_get s2c 2) = {7}" using r(2) e by auto
  show ?thesis using r(1) a b by simp
qed

subsection \<open>The output\<close>

lemma bind_chargers_distinct:
  "bind_chargers sid cids st = Inr st' \<Longrightarrow> distinct (map fst (station_to_chargers st)) \<Longrightarrow>
   distinct (map fst (station_to_chargers st'))"
proof (induction cids arbitrary: st)
  case Nil
  then show ?case by simp
next
  case (Cons cid cids)
  from Cons.prems(1) obtain cs where
    cs: "map_of (station_to_chargers st) sid = Some cs"
    and step: "bind_chargers sid cids
      (st\<lparr>charger_to_station := AList.update cid sid (charger_to_station st),
          station_to_chargers := AList.update sid (set_add cid cs) (station_to_chargers st)\<rparr>)
      = Inr st'"
    by (auto split: if_splits option.splits)
  show ?case
    by (rule Cons.IH [OF step]) (simp add: distinct_update Cons.prems(2))
qed

lemma parse_line_distinct:
  assumes "parse_line st ln = Inr st'" and "distinct (map fst (station_to_chargers st))"
  shows "distinct (map fst (station_to_chargers st'))"
proof -
  have rep: "report_line st ln = Inr st' \<Longrightarrow> station_to_chargers st' = station_to_chargers st"
    by (auto simp: report_line_def Let_def split: list.splits if_splits option.splits)
  have sta: "station_line st ln = Inr st' \<Longrightarrow> distinct (map fst (station_to_chargers st'))"
    using assms(2)
    by (auto simp: station_line_def Let_def distinct_update
        split: list.splits option.splits sum.splits if_splits
        dest!: bind_chargers_distinct)
  show ?thesis
    using assms rep sta by (auto simp: parse_line_def split: if_splits)
qed

lemma parse_lines_distinct:
  "parse_lines st lns = Inr st' \<Longrightarrow> distinct (map fst (station_to_chargers st)) \<Longrightarrow>
   distinct (map fst (station_to_chargers st'))"
proof (induction lns arbitrary: st)
  case Nil
  then show ?case by simp
next
  case (Cons ln lns)
  from Cons.prems(1) obtain st1 where
    a: "parse_line st ln = Inr st1" and b: "parse_lines st1 lns = Inr st'"
    by (auto split: sum.splits)
  show ?case by (rule Cons.IH [OF b parse_line_distinct [OF a Cons.prems(2)]])
qed

lemma parse_input_distinct:
  assumes "parse_input fs path = Inr (s2c, c2s, reps)"
  shows "distinct (map fst s2c)"
proof -
  from assms obtain doc st where
    "parse_lines init_pstate (map str_strip (readlines doc)) = Inr st"
    and "s2c = station_to_chargers st"
    by (auto simp: parse_input_def parse_document_def split: sum.splits)
  then show ?thesis using parse_lines_distinct [of init_pstate _ st]
    by (simp add: init_pstate_def)
qed

lemma keys_fold_update:
  "fst ` set (fold (\<lambda>k r. AList.update k (f k) r) ks r0) = set ks \<union> fst ` set r0"
  by (induction ks arbitrary: r0) (auto simp: dom_update)

lemma distinct_fold_update:
  "distinct (map fst r0) \<Longrightarrow> distinct (map fst (fold (\<lambda>k r. AList.update k (f k) r) ks r0))"
  by (induction ks arbitrary: r0) (auto simp: distinct_update)

lemma sorted_keys_compute:
  assumes "distinct (map fst s2c)"
  shows "sort (map fst (compute_station_uptime s2c reps)) = sort (map fst s2c)"
proof (rule sorted_distinct_set_unique)
  show "distinct (sort (map fst (compute_station_uptime s2c reps)))"
    by (simp add: compute_station_uptime_def distinct_fold_update)
  show "distinct (sort (map fst s2c))" using assms by simp
  show "set (sort (map fst (compute_station_uptime s2c reps))) = set (sort (map fst s2c))"
    by (simp add: compute_station_uptime_def keys_fold_update)
qed simp_all

lemma print_results_all:
  "\<forall>k \<in> set ids. map_of results k = Some (g k) \<Longrightarrow>
   print_results results ids out =
     Inr (out @ map (\<lambda>k. str_int k @ '' '' @ str_int (g k)) ids)"
  by (induction ids arbitrary: out) auto

text \<open>
  Claim C9. When parsing succeeds, the program exits with status 0, prints nothing on
  the error channel, and its standard output is exactly one line per station of the
  parsed model, the station ids in ascending numeric order, each line being the station
  id, a space and the uptime percentage of that station: no header and no summary. The
  station ids of the model are distinct, so the number of lines is the number of
  stations.
\<close>

theorem output_lines:
  assumes "parse_input fs path = Inr (s2c, c2s, reps)"
  shows "main fs [prog, path] =
           (0,
            map (\<lambda>station_id. str_int station_id @ '' '' @
                   str_int (station_uptime (dict_get s2c station_id) reps))
                (sort (map fst s2c)),
            [])
         \<and> distinct (map fst s2c)
         \<and> sorted_wrt (<) (sort (map fst s2c))
         \<and> set (sort (map fst s2c)) = fst ` set s2c
         \<and> length (fst (snd (main fs [prog, path]))) = length s2c"
proof -
  let ?results = "compute_station_uptime s2c reps"
  let ?g = "\<lambda>k. station_uptime (dict_get s2c k) reps"
  have d: "distinct (map fst s2c)" by (rule parse_input_distinct [OF assms])
  have k: "sort (map fst ?results) = sort (map fst s2c)" by (rule sorted_keys_compute [OF d])
  have "\<forall>k \<in> set (sort (map fst s2c)). map_of ?results k = Some (?g k)"
    by (simp add: map_of_compute)
  then have p: "print_results ?results (sort (map fst s2c)) [] =
      Inr (map (\<lambda>k. str_int k @ '' '' @ str_int (?g k)) (sort (map fst s2c)))"
    using print_results_all [of "sort (map fst s2c)" ?results ?g "[]"] by simp
  have m: "main fs [prog, path] =
      (0, map (\<lambda>k. str_int k @ '' '' @ str_int (?g k)) (sort (map fst s2c)), [])"
    by (simp add: main_def assms Let_def k p)
  have s: "sorted_wrt (<) (sort (map fst s2c))"
    using d by (simp add: strict_sorted_iff)
  show ?thesis using m d s by simp
qed

lemma parse_two_stations:
  "parse_input (\<lambda>p. Inr (''[Stations]'' @ [CHR 0x0A] @ ''12 3'' @ [CHR 0x0A] @ ''-4 7'' @ [CHR 0x0A]
       @ ''[Charger Availability Reports]'' @ [CHR 0x0A] @ ''3 0 10 true'' @ [CHR 0x0A]
       @ ''3 10 40 false'' @ [CHR 0x0A])) ''input.txt'' =
     Inr ([(12, [3]), (-4, [7])], [(3, 12), (7, -4)], [(3, [(0, 10, True), (10, 40, False)])])"
  by code_simp

theorem output_lines_witness:
  "main (\<lambda>p. Inr (''[Stations]'' @ [CHR 0x0A] @ ''12 3'' @ [CHR 0x0A] @ ''-4 7'' @ [CHR 0x0A]
       @ ''[Charger Availability Reports]'' @ [CHR 0x0A] @ ''3 0 10 true'' @ [CHR 0x0A]
       @ ''3 10 40 false'' @ [CHR 0x0A])) [''station_uptime.py'', ''input.txt''] =
     (0, [''-4 0'', ''12 25''], [])"
proof -
  have a: "map (\<lambda>station_id. str_int station_id @ '' '' @
                   str_int (station_uptime (dict_get [(12, [3]), (-4, [7])] station_id)
                      [(3, [(0, 10, True), (10, 40, False)])]))
                (sort (map fst [(12 :: int, [3 :: int]), (-4, [7])])) = [''-4 0'', ''12 25'']"
    by code_simp
  show ?thesis
    using output_lines [OF parse_two_stations, of "''station_uptime.py''"] unfolding a by simp
qed

subsection \<open>Report lines\<close>

lemma main_parse_error:
  "parse_input fs path = Inl e \<Longrightarrow>
   main fs [prog, path] = (1, [''error''], [''Error: '' @ message e])"
  by (simp add: main_def)

lemma marker_tokens:
  "str_split ''[Stations]'' = [''[Stations]'']"
  "str_split ''[Charger Availability Reports]'' = [''[Charger'', ''Availability'', ''Reports]'']"
  by code_simp+

lemma parse_line_report:
  assumes "state st = 2" and "\<not> startswith ln ''#''" and "str_split ln = tok # toks"
    and "\<not> startswith tok ''[''"
  shows "parse_line st ln = report_line st ln"
proof -
  have a: "ln \<noteq> []" using assms(3) by (auto simp: str_split_def)
  have b: "ln \<noteq> ''[Stations]''"
    using assms(3,4) marker_tokens(1) by (auto simp: startswith_def)
  have c: "ln \<noteq> ''[Charger Availability Reports]''"
    using assms(3,4) marker_tokens(2) by (auto simp: startswith_def)
  show ?thesis using a b c assms(1,2) by (simp add: parse_line_def)
qed

lemma parse_line_bracket:
  assumes "state st = 2" and "\<not> startswith ln ''#''" and "str_split ln = tok # toks"
    and "startswith tok ''[''"
  shows "parse_line st ln = Inr (if ln = ''[Stations]'' then st\<lparr>state := 1\<rparr> else st)"
proof -
  have ne: "ln \<noteq> []" using assms(3) by (auto simp: str_split_def)
  have same: "st\<lparr>state := 2\<rparr> = st" using assms(1) by simp
  show ?thesis
  proof (cases "ln = ''[Stations]''")
    case True
    then show ?thesis using ne assms(2) by (simp add: parse_line_def)
  next
    case False
    show ?thesis
    proof (cases "ln = ''[Charger Availability Reports]''")
      case True
      then show ?thesis using ne assms(2) same \<open>ln \<noteq> ''[Stations]''\<close>
        by (simp add: parse_line_def)
    next
      case False
      then show ?thesis using ne assms \<open>ln \<noteq> ''[Stations]''\<close>
        by (simp add: parse_line_def report_line_def)
    qed
  qed
qed

lemma comment_line_ignored:
  "startswith ln ''#'' \<Longrightarrow> parse_line st ln = Inr st"
  by (simp add: parse_line_def)

lemma run_fails:
  assumes "fs path = Inr doc"
    and "map str_strip (readlines doc) = pre @ ln # post"
    and "parse_lines init_pstate pre = Inr st"
    and "parse_line st ln = Inl e"
  shows "main fs [prog, path] = (1, [''error''], [''Error: '' @ message e])"
proof -
  have "parse_input fs path = Inl e"
    using assms by (simp add: parse_input_def parse_document_def parse_lines_append)
  then show ?thesis by (rule main_parse_error)
qed

text \<open>
  Claim C6, as amended. In report mode, take a line that has a first token and is not
  a comment (a line that begins with \<open>#\<close> is ignored in every mode). If the first token
  does not begin with \<open>[\<close>, the line is accepted exactly when it has four fields, the
  first three integers and the fourth \<open>true\<close> or \<open>false\<close> in any case, and then the
  report is appended to the reports of its charger. A wrong field count, a non-integer
  among the first three fields and any other flag each raise their own error, and the
  run then prints the sentinel \<open>error\<close> on standard output, the message on the error
  channel, and exits with status 1. If the first token begins with \<open>[\<close>, the line
  raises no error and is skipped, the whole state of the parser unchanged, the mode
  too; but for the line that is exactly the station marker, which changes the mode to
  station mode and nothing else.
\<close>

theorem report_line_checked:
  assumes "fs path = Inr doc"
    and "map str_strip (readlines doc) = pre @ ln # post"
    and "parse_lines init_pstate pre = Inr st"
    and "state st = 2"
    and "\<not> startswith ln ''#''"
    and "str_split ln = tok # toks"
  shows "(\<not> startswith tok ''['' \<and> length (str_split ln) \<noteq> 4 \<longrightarrow>
            parse_line st ln = Inl (InvalidFieldCount ln)
            \<and> main fs [prog, path] =
                (1, [''error''], [''Error: '' @ message (InvalidFieldCount ln)]))
         \<and> (\<not> startswith tok ''['' \<and> str_split ln = [p0, p1, p2, p3]
              \<and> (py_int p0 = None \<or> py_int p1 = None \<or> py_int p2 = None) \<longrightarrow>
            parse_line st ln = Inl (InvalidNumericField ln)
            \<and> main fs [prog, path] =
                (1, [''error''], [''Error: '' @ message (InvalidNumericField ln)]))
         \<and> (\<not> startswith tok ''['' \<and> str_split ln = [p0, p1, p2, p3]
              \<and> py_int p0 = Some cid \<and> py_int p1 = Some start \<and> py_int p2 = Some end'
              \<and> str_lower p3 \<noteq> ''true'' \<and> str_lower p3 \<noteq> ''false'' \<longrightarrow>
            parse_line st ln = Inl (InvalidUpFlag ln)
            \<and> main fs [prog, path] =
                (1, [''error''], [''Error: '' @ message (InvalidUpFlag ln)]))
         \<and> (\<not> startswith tok ''['' \<and> str_split ln = [p0, p1, p2, p3]
              \<and> py_int p0 = Some cid \<and> py_int p1 = Some start \<and> py_int p2 = Some end'
              \<and> (str_lower p3 = ''true'' \<or> str_lower p3 = ''false'') \<longrightarrow>
            parse_line st ln =
              Inr (st\<lparr>reports :=
                     AList.update cid
                       (dict_get (reports st) cid @ [(start, end', str_lower p3 = ''true'')])
                       (reports st)\<rparr>))
         \<and> (startswith tok ''['' \<longrightarrow>
              parse_line st ln =
                Inr (if ln = ''[Stations]'' then st\<lparr>state := 1\<rparr> else st))"
proof (intro conjI impI)
  assume h: "\<not> startswith tok ''['' \<and> length (str_split ln) \<noteq> 4"
  then have "report_line st ln = Inl (InvalidFieldCount ln)"
    using assms(6) by (auto simp: report_line_def split: list.splits)
  then have e: "parse_line st ln = Inl (InvalidFieldCount ln)"
    using parse_line_report [OF assms(4,5,6)] h by simp
  then show "parse_line st ln = Inl (InvalidFieldCount ln)" .
  show "main fs [prog, path] =
          (1, [''error''], [''Error: '' @ message (InvalidFieldCount ln)])"
    by (rule run_fails [where fs = fs and path = path, OF assms(1,2,3) e])
next
  assume h: "\<not> startswith tok ''['' \<and> str_split ln = [p0, p1, p2, p3]
              \<and> (py_int p0 = None \<or> py_int p1 = None \<or> py_int p2 = None)"
  then have t: "tok = p0" using assms(6) by simp
  have "report_line st ln = Inl (InvalidNumericField ln)"
    using h t by (auto simp: report_line_def split: option.splits)
  then have e: "parse_line st ln = Inl (InvalidNumericField ln)"
    using parse_line_report [OF assms(4,5,6)] h by simp
  then show "parse_line st ln = Inl (InvalidNumericField ln)" .
  show "main fs [prog, path] =
          (1, [''error''], [''Error: '' @ message (InvalidNumericField ln)])"
    by (rule run_fails [where fs = fs and path = path, OF assms(1,2,3) e])
next
  assume h: "\<not> startswith tok ''['' \<and> str_split ln = [p0, p1, p2, p3]
              \<and> py_int p0 = Some cid \<and> py_int p1 = Some start \<and> py_int p2 = Some end'
              \<and> str_lower p3 \<noteq> ''true'' \<and> str_lower p3 \<noteq> ''false''"
  then have t: "tok = p0" using assms(6) by simp
  have "report_line st ln = Inl (InvalidUpFlag ln)"
    using h t by (simp add: report_line_def)
  then have e: "parse_line st ln = Inl (InvalidUpFlag ln)"
    using parse_line_report [OF assms(4,5,6)] h by simp
  then show "parse_line st ln = Inl (InvalidUpFlag ln)" .
  show "main fs [prog, path] =
          (1, [''error''], [''Error: '' @ message (InvalidUpFlag ln)])"
    by (rule run_fails [where fs = fs and path = path, OF assms(1,2,3) e])
next
  assume h: "\<not> startswith tok ''['' \<and> str_split ln = [p0, p1, p2, p3]
              \<and> py_int p0 = Some cid \<and> py_int p1 = Some start \<and> py_int p2 = Some end'
              \<and> (str_lower p3 = ''true'' \<or> str_lower p3 = ''false'')"
  then have t: "tok = p0" using assms(6) by simp
  have "report_line st ln =
          Inr (st\<lparr>reports :=
                 AList.update cid
                   (dict_get (reports st) cid @ [(start, end', str_lower p3 = ''true'')])
                   (reports st)\<rparr>)"
    using h t by (auto simp: report_line_def)
  then show "parse_line st ln =
          Inr (st\<lparr>reports :=
                 AList.update cid
                   (dict_get (reports st) cid @ [(start, end', str_lower p3 = ''true'')])
                   (reports st)\<rparr>)"
    using parse_line_report [OF assms(4,5,6)] h by simp
next
  assume "startswith tok ''[''"
  then show "parse_line st ln =
                Inr (if ln = ''[Stations]'' then st\<lparr>state := 1\<rparr> else st)"
    by (rule parse_line_bracket [OF assms(4,5,6)])
qed

lemma state_after_report_marker:
  "parse_lines init_pstate [''[Charger Availability Reports]''] =
     Inr \<lparr>state = 2, station_to_chargers = [], charger_to_station = [], reports = []\<rparr>"
  by code_simp

theorem report_line_checked_witness:
  "main (\<lambda>p. Inr short_report_document) [''station_uptime.py'', ''input.txt''] =
     (1, [''error''], [''Error: Invalid report line (need 4 fields): 10 0 100''])
   \<and> parse_line
         \<lparr>state = 2, station_to_chargers = [], charger_to_station = [], reports = []\<rparr>
         ''[Stations]'' =
       Inr \<lparr>state = 1, station_to_chargers = [], charger_to_station = [], reports = []\<rparr>
   \<and> parse_line
         \<lparr>state = 2, station_to_chargers = [], charger_to_station = [], reports = []\<rparr>
         ''[stray]'' =
       Inr \<lparr>state = 2, station_to_chargers = [], charger_to_station = [], reports = []\<rparr>
   \<and> parse_line
         \<lparr>state = 2, station_to_chargers = [], charger_to_station = [], reports = []\<rparr>
         ''10 0 100 true'' =
       Inr \<lparr>state = 2, station_to_chargers = [], charger_to_station = [],
            reports = [(10, [(0, 100, True)])]\<rparr>"
proof -
  let ?st = "\<lparr>state = 2, station_to_chargers = [], charger_to_station = [], reports = []\<rparr>"
  let ?prog = "''station_uptime.py''"
  let ?path = "''input.txt''"
  have c: "state ?st = 2" by simp
  have a1: "(\<lambda>p :: string. (Inr short_report_document :: string + string)) ?path
      = Inr short_report_document" by simp
  have b1: "map str_strip (readlines short_report_document) =
      [''[Charger Availability Reports]''] @ ''10 0 100'' # []" by code_simp
  have d1: "\<not> startswith ''10 0 100'' ''#''" by code_simp
  have e1: "str_split ''10 0 100'' = ''10'' # [''0'', ''100'']" by code_simp
  have f1: "\<not> startswith ''10'' ''['' \<and> length (str_split ''10 0 100'') \<noteq> 4" by code_simp
  have r1: "main (\<lambda>p. Inr short_report_document) [?prog, ?path] =
     (1, [''error''], [''Error: Invalid report line (need 4 fields): 10 0 100''])"
    using report_line_checked [where fs = "\<lambda>p. Inr short_report_document"
        and path = ?path and prog = ?prog,
        OF a1 b1 state_after_report_marker c d1 e1] f1
    by simp
  have a2: "(\<lambda>p :: string. (Inr marker_report_document :: string + string)) ?path
      = Inr marker_report_document" by simp
  have b2: "map str_strip (readlines marker_report_document) =
      [''[Charger Availability Reports]''] @ ''[Stations]'' # [''10 0 100 true'']"
    by code_simp
  have d2: "\<not> startswith ''[Stations]'' ''#''" by code_simp
  have e2: "str_split ''[Stations]'' = ''[Stations]'' # []" by code_simp
  have f2: "startswith ''[Stations]'' ''[''" by code_simp
  have r2: "parse_line ?st ''[Stations]'' =
       Inr \<lparr>state = 1, station_to_chargers = [], charger_to_station = [], reports = []\<rparr>"
    using report_line_checked [where fs = "\<lambda>p. Inr marker_report_document"
        and path = ?path and prog = ?prog,
        OF a2 b2 state_after_report_marker c d2 e2] f2
    by simp
  have a3: "(\<lambda>p :: string. (Inr stray_report_document :: string + string)) ?path
      = Inr stray_report_document" by simp
  have b3: "map str_strip (readlines stray_report_document) =
      [''[Charger Availability Reports]''] @ ''[stray]'' # [''10 0 100 true'']"
    by code_simp
  have d3: "\<not> startswith ''[stray]'' ''#''" by code_simp
  have e3: "str_split ''[stray]'' = ''[stray]'' # []" by code_simp
  have f3: "startswith ''[stray]'' ''[''" by code_simp
  have r3: "parse_line ?st ''[stray]'' = Inr ?st"
    using report_line_checked [where fs = "\<lambda>p. Inr stray_report_document"
        and path = ?path and prog = ?prog,
        OF a3 b3 state_after_report_marker c d3 e3] f3
    by simp
  have b4: "map str_strip (readlines stray_report_document) =
      [''[Charger Availability Reports]'', ''[stray]''] @ ''10 0 100 true'' # []"
    by code_simp
  have s4: "parse_lines init_pstate [''[Charger Availability Reports]'', ''[stray]''] = Inr ?st"
    by code_simp
  have d4: "\<not> startswith ''10 0 100 true'' ''#''" by code_simp
  have e4: "str_split ''10 0 100 true'' = ''10'' # [''0'', ''100'', ''true'']" by code_simp
  have f4: "\<not> startswith ''10'' ''['' \<and> str_split ''10 0 100 true'' = [''10'', ''0'', ''100'', ''true'']
      \<and> py_int ''10'' = Some 10 \<and> py_int ''0'' = Some 0 \<and> py_int ''100'' = Some 100
      \<and> (str_lower ''true'' = ''true'' \<or> str_lower ''true'' = ''false'')" by code_simp
  have r4: "parse_line ?st ''10 0 100 true'' =
       Inr \<lparr>state = 2, station_to_chargers = [], charger_to_station = [],
            reports = [(10, [(0, 100, True)])]\<rparr>"
  proof -
    have u: "str_lower ''true'' = ''true''" by code_simp
    have "parse_line ?st ''10 0 100 true'' =
        Inr (?st\<lparr>reports := AList.update 10
              (dict_get (reports ?st) 10 @ [(0, 100, str_lower ''true'' = ''true'')])
              (reports ?st)\<rparr>)"
      using report_line_checked [where fs = "\<lambda>p. Inr stray_report_document"
          and path = ?path and prog = ?prog and ?p0.0 = "''10''" and ?p1.0 = "''0''"
          and ?p2.0 = "''100''" and ?p3.0 = "''true''" and cid = 10 and start = 0
          and end' = 100,
          OF a3 b4 s4 c d4 e4] f4
      by blast
    then show ?thesis by (simp add: u dict_get_def)
  qed
  show ?thesis using r1 r2 r3 r4 by simp
qed

text \<open>
  The claim as first stated fails on the station marker: in report mode the line
  \<open>[Stations]\<close> has a first token that begins with \<open>[\<close>, and it is not skipped but changes
  the mode. The well-formed report line after it is then read as a station line, and
  the run fails on the token \<open>true\<close>; with another bracketed line in place of the marker
  the run succeeds.
\<close>

theorem report_line_checked_counterexample:
  "map str_strip (readlines marker_report_document) =
     [''[Charger Availability Reports]'', ''[Stations]'', ''10 0 100 true'']
   \<and> parse_lines init_pstate [''[Charger Availability Reports]''] =
       Inr \<lparr>state = 2, station_to_chargers = [], charger_to_station = [], reports = []\<rparr>
   \<and> str_split ''[Stations]'' = [''[Stations]'']
   \<and> startswith ''[Stations]'' ''[''
   \<and> parse_line
         \<lparr>state = 2, station_to_chargers = [], charger_to_station = [], reports = []\<rparr>
         ''[Stations]'' =
       Inr \<lparr>state = 1, station_to_chargers = [], charger_to_station = [], reports = []\<rparr>
   \<and> main (\<lambda>p. Inr marker_report_document) [''station_uptime.py'', ''input.txt''] =
       (1, [''error''], [''Error: Invalid charger id on station line: 10 0 100 true''])
   \<and> map str_strip (readlines stray_report_document) =
       [''[Charger Availability Reports]'', ''[stray]'', ''10 0 100 true'']
   \<and> main (\<lambda>p. Inr stray_report_document) [''station_uptime.py'', ''input.txt''] =
       (0, [], [])"
proof -
  have a: "map str_strip (readlines marker_report_document) =
     [''[Charger Availability Reports]'', ''[Stations]'', ''10 0 100 true'']" by code_simp
  have b: "str_split ''[Stations]'' = [''[Stations]'']" by code_simp
  have c: "startswith ''[Stations]'' ''[''" by code_simp
  have d: "parse_line
         \<lparr>state = 2, station_to_chargers = [], charger_to_station = [], reports = []\<rparr>
         ''[Stations]'' =
       Inr \<lparr>state = 1, station_to_chargers = [], charger_to_station = [], reports = []\<rparr>"
    by code_simp
  have e: "main (\<lambda>p. Inr marker_report_document) [''station_uptime.py'', ''input.txt''] =
       (1, [''error''], [''Error: Invalid charger id on station line: 10 0 100 true''])"
    by code_simp
  have f: "map str_strip (readlines stray_report_document) =
       [''[Charger Availability Reports]'', ''[stray]'', ''10 0 100 true'']" by code_simp
  have g: "main (\<lambda>p. Inr stray_report_document) [''station_uptime.py'', ''input.txt''] =
       (0, [], [])" by code_simp
  show ?thesis using a b c d e f g state_after_report_marker by simp
qed

end
